theory Spec2Isabelle
  imports Main "HOL-Library.Word"
begin

section \<open>Ticket model (package model, ticket.go)\<close>

text \<open>
  Time is an integer count of nanoseconds; a \<open>time.Duration\<close> is an integer count of
  nanoseconds as well. Every operation of the lock manager runs under the manager's
  mutex and is given the clock reading \<open>now\<close> of that operation as an argument.
  The zero \<open>time.Time\<close> of a field that was never set is \<open>0\<close>. Integers are
  unbounded: the model is the code as long as times and durations fit into 64 bits.
\<close>

datatype TicketStatus =
  TicketStatusWaiting | TicketStatusGranted | TicketStatusExpired | TicketStatusReleased

record Ticket =
  TicketID :: string
  ToolID :: string
  ThreadID :: string
  RequestedAt :: int
  Status :: TicketStatus
  GrantedAt :: int
  ExpiresAt :: int
  LastPollAt :: int
  ExtendCount :: int

definition second :: int where
  "second = 1000000000"

text \<open>\<open>NewTicket\<close>: the identifier drawn by \<open>uuid.New()\<close> is the argument \<open>uuid\<close>.\<close>

definition NewTicket :: "int \<Rightarrow> string \<Rightarrow> string \<Rightarrow> string \<Rightarrow> Ticket" where
  "NewTicket now uuid toolID threadID =
     \<lparr>TicketID = uuid, ToolID = toolID, ThreadID = threadID, RequestedAt = now,
      Status = TicketStatusWaiting, GrantedAt = 0, ExpiresAt = 0, LastPollAt = now,
      ExtendCount = 0\<rparr>"

definition IsWaiting :: "Ticket \<Rightarrow> bool" where
  "IsWaiting t = (Status t = TicketStatusWaiting)"

definition IsGranted :: "Ticket \<Rightarrow> bool" where
  "IsGranted t = (Status t = TicketStatusGranted)"

definition IsExpired :: "Ticket \<Rightarrow> bool" where
  "IsExpired t = (Status t = TicketStatusExpired)"

definition IsReleased :: "Ticket \<Rightarrow> bool" where
  "IsReleased t = (Status t = TicketStatusReleased)"

definition Grant :: "int \<Rightarrow> int \<Rightarrow> Ticket \<Rightarrow> Ticket" where
  "Grant now lockDuration t =
     t\<lparr>Status := TicketStatusGranted, GrantedAt := now, ExpiresAt := now + lockDuration\<rparr>"

definition Expire :: "Ticket \<Rightarrow> Ticket" where
  "Expire t = t\<lparr>Status := TicketStatusExpired\<rparr>"

definition Release :: "Ticket \<Rightarrow> Ticket" where
  "Release t = t\<lparr>Status := TicketStatusReleased\<rparr>"

definition UpdatePollTime :: "int \<Rightarrow> Ticket \<Rightarrow> Ticket" where
  "UpdatePollTime now t = t\<lparr>LastPollAt := now\<rparr>"

definition IsLockExpired :: "int \<Rightarrow> Ticket \<Rightarrow> bool" where
  "IsLockExpired now t = (if \<not> IsGranted t then False else ExpiresAt t < now)"

definition IsTTLExpired :: "int \<Rightarrow> int \<Rightarrow> Ticket \<Rightarrow> bool" where
  "IsTTLExpired now ttl t = (if \<not> IsWaiting t then False else ttl < now - LastPollAt t)"

definition IsGracePeriodExpired :: "int \<Rightarrow> int \<Rightarrow> Ticket \<Rightarrow> bool" where
  "IsGracePeriodExpired now gracePeriod t =
     (if \<not> IsGranted t then False
      else if LastPollAt t < GrantedAt t \<or> LastPollAt t = GrantedAt t
        then gracePeriod < now - GrantedAt t
      else False)"

definition Extend :: "int \<Rightarrow> int \<Rightarrow> Ticket \<Rightarrow> Ticket" where
  "Extend now extendDuration t =
     t\<lparr>ExpiresAt := now + extendDuration, ExtendCount := ExtendCount t + 1\<rparr>"

definition Key :: "Ticket \<Rightarrow> string" where
  "Key t = ToolID t @ '':'' @ ThreadID t"


section \<open>Tool registry (package service, tool\_registry.go; package model, tool.go)\<close>

datatype ToolStatus = ToolStatusOnline | ToolStatusOffline

record Tool =
  Tool_ToolID :: string
  RegisteredAt :: int
  LastHeartbeat :: int
  Tool_Status :: ToolStatus

datatype error =
  ErrToolAlreadyRegistered | ErrToolNotFound | ErrToolOffline
  | ErrTicketNotFound | ErrNotLockHolder | ErrExtendDisabled | ErrMaxExtendReached

record ToolRegistry =
  tools :: "string \<rightharpoonup> Tool"

definition NewTool :: "int \<Rightarrow> string \<Rightarrow> Tool" where
  "NewTool now toolID =
     \<lparr>Tool_ToolID = toolID, RegisteredAt = now, LastHeartbeat = now,
      Tool_Status = ToolStatusOnline\<rparr>"

definition Tool_IsOnline :: "Tool \<Rightarrow> bool" where
  "Tool_IsOnline t = (Tool_Status t = ToolStatusOnline)"

definition UpdateHeartbeat :: "int \<Rightarrow> Tool \<Rightarrow> Tool" where
  "UpdateHeartbeat now t = t\<lparr>LastHeartbeat := now, Tool_Status := ToolStatusOnline\<rparr>"

definition MarkOffline :: "Tool \<Rightarrow> Tool" where
  "MarkOffline t = t\<lparr>Tool_Status := ToolStatusOffline\<rparr>"

definition NewToolRegistry :: ToolRegistry where
  "NewToolRegistry = \<lparr>tools = Map.empty\<rparr>"

definition Register :: "int \<Rightarrow> string \<Rightarrow> ToolRegistry \<Rightarrow> (error + Tool) \<times> ToolRegistry" where
  "Register now toolID tr =
     (case tools tr toolID of
        Some existing \<Rightarrow>
          if Tool_IsOnline existing then (Inl ErrToolAlreadyRegistered, tr)
          else (Inr (UpdateHeartbeat now existing),
                tr\<lparr>tools := (tools tr)(toolID \<mapsto> UpdateHeartbeat now existing)\<rparr>)
      | None \<Rightarrow>
          (Inr (NewTool now toolID), tr\<lparr>tools := (tools tr)(toolID \<mapsto> NewTool now toolID)\<rparr>))"

definition Heartbeat :: "int \<Rightarrow> string \<Rightarrow> ToolRegistry \<Rightarrow> (error + Tool) \<times> ToolRegistry" where
  "Heartbeat now toolID tr =
     (case tools tr toolID of
        None \<Rightarrow> (Inl ErrToolNotFound, tr)
      | Some tool \<Rightarrow>
          (Inr (UpdateHeartbeat now tool),
           tr\<lparr>tools := (tools tr)(toolID \<mapsto> UpdateHeartbeat now tool)\<rparr>))"

definition Unregister :: "string \<Rightarrow> ToolRegistry \<Rightarrow> (error + Tool) \<times> ToolRegistry" where
  "Unregister toolID tr =
     (case tools tr toolID of
        None \<Rightarrow> (Inl ErrToolNotFound, tr)
      | Some tool \<Rightarrow>
          (Inr (MarkOffline tool), tr\<lparr>tools := (tools tr)(toolID \<mapsto> MarkOffline tool)\<rparr>))"

definition IsOnline :: "ToolRegistry \<Rightarrow> string \<Rightarrow> bool" where
  "IsOnline tr toolID =
     (case tools tr toolID of None \<Rightarrow> False | Some tool \<Rightarrow> Tool_IsOnline tool)"


section \<open>Lock manager (package service, lock\_manager.go)\<close>

text \<open>
  The Go fields \<open>queue\<close>, \<open>currentLock\<close> and the values of \<open>tickets\<close> are pointers
  to shared, mutable \<open>Ticket\<close> objects. The objects live in the store \<open>heap\<close>; a
  pointer is an index into it, and \<open>NewTicket\<close> allocates the next index. Objects
  are never freed in the model, so every pointer stays valid, as in Go.

  An operation returns its result together with the state it leaves behind; an error is
  the left summand of the result. The calls to the logs (zerolog and the event logger) do
  not change the state of the manager and are left out, and with them \<open>HoldDuration\<close>
  and \<open>WaitDuration\<close>, which only the logs read.
\<close>

type_synonym addr = nat

record Config =
  TicketTTL :: int
  TicketTTLOnPoll :: bool
  LockMaxDuration :: int
  LockExtendable :: bool
  LockExtendMax :: int
  LockGracePeriod :: int

text \<open>\<open>config.Default()\<close>, restricted to the fields the lock manager reads.\<close>

definition Default :: Config where
  "Default = \<lparr>TicketTTL = 120, TicketTTLOnPoll = True, LockMaxDuration = 20,
     LockExtendable = True, LockExtendMax = 2, LockGracePeriod = 5\<rparr>"

record LockManager =
  heap :: "Ticket list"
  queue :: "addr list"
  currentLock :: "addr option"
  tickets :: "string \<rightharpoonup> addr"
  threadKeys :: "string \<rightharpoonup> string"

definition NewLockManager :: LockManager where
  "NewLockManager =
     \<lparr>heap = [], queue = [], currentLock = None, tickets = Map.empty, threadKeys = Map.empty\<rparr>"

text \<open>A method call through a pointer: \<open>f\<close> is applied to the object at \<open>a\<close>.\<close>

definition updTicket :: "addr \<Rightarrow> (Ticket \<Rightarrow> Ticket) \<Rightarrow> LockManager \<Rightarrow> LockManager" where
  "updTicket a f lm = lm\<lparr>heap := (heap lm)[a := f (heap lm ! a)]\<rparr>"

definition cleanupTicket :: "addr \<Rightarrow> LockManager \<Rightarrow> LockManager" where
  "cleanupTicket a lm =
     lm\<lparr>tickets := (tickets lm)(TicketID (heap lm ! a) := None),
        threadKeys := (threadKeys lm)(Key (heap lm ! a) := None)\<rparr>"

fun queueScan :: "Ticket list \<Rightarrow> addr list \<Rightarrow> string \<Rightarrow> int \<Rightarrow> int" where
  "queueScan h [] ticketID i = - 1"
| "queueScan h (a # as) ticketID i =
     (if TicketID (h ! a) = ticketID then i + 1 else queueScan h as ticketID (i + 1))"

definition getQueuePosition :: "LockManager \<Rightarrow> string \<Rightarrow> int" where
  "getQueuePosition lm ticketID =
     (case currentLock lm of
        Some c \<Rightarrow>
          if TicketID (heap lm ! c) = ticketID then 0
          else queueScan (heap lm) (queue lm) ticketID 0
      | None \<Rightarrow> queueScan (heap lm) (queue lm) ticketID 0)"

definition tryGrantNext :: "Config \<Rightarrow> int \<Rightarrow> LockManager \<Rightarrow> LockManager" where
  "tryGrantNext cfg now lm =
     (if currentLock lm \<noteq> None then lm
      else case queue lm of
        [] \<Rightarrow> lm
      | a # rest \<Rightarrow>
          (updTicket a (Grant now (LockMaxDuration cfg * second)) (lm\<lparr>queue := rest\<rparr>))
            \<lparr>currentLock := Some a\<rparr>)"

text \<open>The lookup at the head of \<open>RequestLock\<close>: the live ticket already held for a key.\<close>

definition existingTicket :: "LockManager \<Rightarrow> string \<Rightarrow> addr option" where
  "existingTicket lm key =
     (case threadKeys lm key of
        None \<Rightarrow> None
      | Some existingTicketID \<Rightarrow>
          (case tickets lm existingTicketID of
             None \<Rightarrow> None
           | Some a \<Rightarrow>
               if IsWaiting (heap lm ! a) \<or> IsGranted (heap lm ! a) then Some a else None))"

definition RequestLock ::
  "Config \<Rightarrow> ToolRegistry \<Rightarrow> int \<Rightarrow> string \<Rightarrow> string \<Rightarrow> string \<Rightarrow> LockManager
     \<Rightarrow> (error + addr \<times> int) \<times> LockManager" where
  "RequestLock cfg tr now uuid toolID threadID lm =
     (if \<not> IsOnline tr toolID then (Inl ErrToolOffline, lm)
      else case existingTicket lm (toolID @ '':'' @ threadID) of
        Some a \<Rightarrow> (Inr (a, getQueuePosition lm (TicketID (heap lm ! a))), lm)
      | None \<Rightarrow>
          (let a = length (heap lm);
               lm1 = lm\<lparr>heap := heap lm @ [NewTicket now uuid toolID threadID],
                        tickets := (tickets lm)(uuid \<mapsto> a),
                        threadKeys := (threadKeys lm)(toolID @ '':'' @ threadID \<mapsto> uuid),
                        queue := queue lm @ [a]\<rparr>;
               lm2 = tryGrantNext cfg now lm1
           in (Inr (a, getQueuePosition lm2 uuid), lm2)))"

definition CheckLock ::
  "Config \<Rightarrow> int \<Rightarrow> string \<Rightarrow> LockManager \<Rightarrow> (error + addr \<times> int) \<times> LockManager" where
  "CheckLock cfg now ticketID lm =
     (case tickets lm ticketID of
        None \<Rightarrow> (Inl ErrTicketNotFound, lm)
      | Some a \<Rightarrow>
          (let lm1 = (if TicketTTLOnPoll cfg \<and> IsWaiting (heap lm ! a)
                      then updTicket a (UpdatePollTime now) lm else lm);
               lm2 = (if IsGranted (heap lm1 ! a)
                      then updTicket a (UpdatePollTime now) lm1 else lm1)
           in (Inr (a, getQueuePosition lm2 ticketID), lm2)))"

definition notHolder :: "LockManager \<Rightarrow> string \<Rightarrow> bool" where
  "notHolder lm ticketID =
     (case currentLock lm of None \<Rightarrow> True | Some c \<Rightarrow> TicketID (heap lm ! c) \<noteq> ticketID)"

definition ReleaseLock ::
  "Config \<Rightarrow> int \<Rightarrow> string \<Rightarrow> LockManager \<Rightarrow> (error + addr) \<times> LockManager" where
  "ReleaseLock cfg now ticketID lm =
     (case tickets lm ticketID of
        None \<Rightarrow> (Inl ErrTicketNotFound, lm)
      | Some a \<Rightarrow>
          if notHolder lm ticketID then (Inl ErrNotLockHolder, lm)
          else (Inr a,
                tryGrantNext cfg now
                  (cleanupTicket a ((updTicket a Release lm)\<lparr>currentLock := None\<rparr>))))"

definition ExtendLock ::
  "Config \<Rightarrow> int \<Rightarrow> string \<Rightarrow> LockManager \<Rightarrow> (error + addr) \<times> LockManager" where
  "ExtendLock cfg now ticketID lm =
     (if \<not> LockExtendable cfg then (Inl ErrExtendDisabled, lm)
      else case tickets lm ticketID of
        None \<Rightarrow> (Inl ErrTicketNotFound, lm)
      | Some a \<Rightarrow>
          if notHolder lm ticketID then (Inl ErrNotLockHolder, lm)
          else if LockExtendMax cfg \<le> ExtendCount (heap lm ! a) then (Inl ErrMaxExtendReached, lm)
          else (Inr a, updTicket a (Extend now (LockMaxDuration cfg * second)) lm))"

definition ExpireCurrentLock ::
  "Config \<Rightarrow> int \<Rightarrow> string \<Rightarrow> LockManager \<Rightarrow> addr option \<times> LockManager" where
  "ExpireCurrentLock cfg now reason lm =
     (case currentLock lm of
        None \<Rightarrow> (None, lm)
      | Some a \<Rightarrow>
          (Some a,
           tryGrantNext cfg now
             (cleanupTicket a ((updTicket a Expire lm)\<lparr>currentLock := None\<rparr>))))"

fun expireLoop ::
  "int \<Rightarrow> int \<Rightarrow> addr list \<Rightarrow> LockManager \<times> addr list \<times> addr list
     \<Rightarrow> LockManager \<times> addr list \<times> addr list" where
  "expireLoop now ttl [] acc = acc"
| "expireLoop now ttl (a # as) (lm, expired, newQueue) =
     (if IsTTLExpired now ttl (heap lm ! a)
      then expireLoop now ttl as (cleanupTicket a (updTicket a Expire lm), expired @ [a], newQueue)
      else expireLoop now ttl as (lm, expired, newQueue @ [a]))"

definition ExpireWaitingTickets ::
  "Config \<Rightarrow> int \<Rightarrow> LockManager \<Rightarrow> addr list \<times> LockManager" where
  "ExpireWaitingTickets cfg now lm =
     (case expireLoop now (TicketTTL cfg * second) (queue lm) (lm, [], []) of
        (lm1, expired, newQueue) \<Rightarrow> (expired, lm1\<lparr>queue := newQueue\<rparr>))"

definition CheckGracePeriod :: "Config \<Rightarrow> int \<Rightarrow> LockManager \<Rightarrow> addr option \<times> LockManager" where
  "CheckGracePeriod cfg now lm =
     (case currentLock lm of
        None \<Rightarrow> (None, lm)
      | Some a \<Rightarrow>
          if IsGracePeriodExpired now (LockGracePeriod cfg * second) (heap lm ! a)
          then (Some a,
                tryGrantNext cfg now
                  (cleanupTicket a ((updTicket a Expire lm)\<lparr>currentLock := None\<rparr>)))
          else (None, lm))"

definition CheckLockExpiry :: "Config \<Rightarrow> int \<Rightarrow> LockManager \<Rightarrow> addr option \<times> LockManager" where
  "CheckLockExpiry cfg now lm =
     (case currentLock lm of
        None \<Rightarrow> (None, lm)
      | Some a \<Rightarrow>
          if IsLockExpired now (heap lm ! a)
          then (Some a,
                tryGrantNext cfg now
                  (cleanupTicket a ((updTicket a Expire lm)\<lparr>currentLock := None\<rparr>)))
          else (None, lm))"

fun removeLoop ::
  "string \<Rightarrow> addr list \<Rightarrow> LockManager \<times> string list \<times> addr list
     \<Rightarrow> LockManager \<times> string list \<times> addr list" where
  "removeLoop toolID [] acc = acc"
| "removeLoop toolID (a # as) (lm, removed, newQueue) =
     (if ToolID (heap lm ! a) = toolID
      then removeLoop toolID as (cleanupTicket a lm, removed @ [TicketID (heap lm ! a)], newQueue)
      else removeLoop toolID as (lm, removed, newQueue @ [a]))"

definition removeHolder :: "string \<Rightarrow> LockManager \<Rightarrow> LockManager \<times> string list" where
  "removeHolder toolID lm =
     (case currentLock lm of
        None \<Rightarrow> (lm, [])
      | Some c \<Rightarrow>
          if ToolID (heap lm ! c) = toolID
          then ((cleanupTicket c lm)\<lparr>currentLock := None\<rparr>, [TicketID (heap lm ! c)])
          else (lm, []))"

definition RemoveToolTickets ::
  "Config \<Rightarrow> int \<Rightarrow> string \<Rightarrow> LockManager \<Rightarrow> string list \<times> LockManager" where
  "RemoveToolTickets cfg now toolID lm =
     (case removeHolder toolID lm of
        (lm0, removed0) \<Rightarrow>
          (case removeLoop toolID (queue lm0) (lm0, removed0, []) of
             (lm1, removed, newQueue) \<Rightarrow>
               (removed,
                if 0 < length removed then tryGrantNext cfg now (lm1\<lparr>queue := newQueue\<rparr>)
                else lm1\<lparr>queue := newQueue\<rparr>)))"


section \<open>Tool handler (package handler, tool\_handler.go)\<close>

text \<open>
  The handler of POST /tool/unregister (handler/tool\_handler.go, \<open>unregisterTool\<close>): it
  is given the registry only and calls \<open>Unregister\<close>; the lock manager is not touched.
\<close>

definition unregisterTool ::
  "string \<Rightarrow> ToolRegistry \<times> LockManager \<Rightarrow> (error + Tool) \<times> ToolRegistry \<times> LockManager" where
  "unregisterTool toolID sys =
     (case Unregister toolID (fst sys) of (r, tr) \<Rightarrow> (r, tr, snd sys))"


section \<open>Event logger (package logger, event\_logger.go): the per-minute metrics\<close>

text \<open>
  The counters are \<open>atomic.Int64\<close> (\<open>maxQueueLength\<close> an \<open>atomic.Int32\<close>): machine
  words whose addition wraps around, read as signed numbers. The calls are modelled one
  after the other. Left out: the daily counters, the per-tool usage map, the buffer of
  recent events and the log file, none of which \<open>GetMinuteMetrics\<close> reads or writes.
\<close>

type_synonym int64 = "64 word"

type_synonym int32 = "32 word"

record EventLogger =
  locksGranted :: int64
  locksReleased :: int64
  locksExpired :: int64
  expiredTickets :: int64
  failedRequests :: int64
  totalWaitTime :: int64
  totalHoldTime :: int64
  waitCount :: int64
  holdCount :: int64
  maxQueueLength :: int32
  maxWaitTime :: int64
  maxHoldTime :: int64

record SystemMetricsLog =
  Timestamp :: int
  ActiveTools :: int
  QueueLength :: int
  CurrentLockHolder :: string
  LocksGrantedLastMin :: int64
  AvgWaitTimeMs :: int64
  AvgHoldTimeMs :: int64
  ExpiredTickets :: int64
  FailedRequests :: int64

definition NewEventLogger :: EventLogger where
  "NewEventLogger =
     \<lparr>locksGranted = 0, locksReleased = 0, locksExpired = 0, expiredTickets = 0,
      failedRequests = 0, totalWaitTime = 0, totalHoldTime = 0, waitCount = 0, holdCount = 0,
      maxQueueLength = 0, maxWaitTime = 0, maxHoldTime = 0\<rparr>"

text \<open>Go's \<open>/\<close> on \<open>int64\<close>: the quotient truncated towards zero, wrapped to 64 bits.\<close>

definition int64_div :: "int64 \<Rightarrow> int64 \<Rightarrow> int64" where
  "int64_div a b = word_of_int (sgn (sint a) * sgn (sint b) * (\<bar>sint a\<bar> div \<bar>sint b\<bar>))"

definition updateMaxQueueLength :: "int32 \<Rightarrow> EventLogger \<Rightarrow> EventLogger" where
  "updateMaxQueueLength len el =
     (if sint len \<le> sint (maxQueueLength el) then el else el\<lparr>maxQueueLength := len\<rparr>)"

definition updateMaxWaitTime :: "int64 \<Rightarrow> EventLogger \<Rightarrow> EventLogger" where
  "updateMaxWaitTime ms el =
     (if sint ms \<le> sint (maxWaitTime el) then el else el\<lparr>maxWaitTime := ms\<rparr>)"

definition updateMaxHoldTime :: "int64 \<Rightarrow> EventLogger \<Rightarrow> EventLogger" where
  "updateMaxHoldTime ms el =
     (if sint ms \<le> sint (maxHoldTime el) then el else el\<lparr>maxHoldTime := ms\<rparr>)"

text \<open>\<open>LogLockRequested\<close>: the queue position, a Go \<open>int\<close>, is converted by \<open>int32(...)\<close>.\<close>

definition LogLockRequested :: "string \<Rightarrow> string \<Rightarrow> string \<Rightarrow> int \<Rightarrow> EventLogger \<Rightarrow> EventLogger" where
  "LogLockRequested ticketID toolID threadID queuePosition el =
     updateMaxQueueLength (word_of_int queuePosition) el"

definition LogLockGranted :: "string \<Rightarrow> string \<Rightarrow> string \<Rightarrow> int64 \<Rightarrow> EventLogger \<Rightarrow> EventLogger" where
  "LogLockGranted ticketID toolID threadID waitDurationMs el =
     updateMaxWaitTime waitDurationMs
       (el\<lparr>locksGranted := locksGranted el + 1,
           totalWaitTime := totalWaitTime el + waitDurationMs,
           waitCount := waitCount el + 1\<rparr>)"

definition LogLockReleased :: "string \<Rightarrow> string \<Rightarrow> string \<Rightarrow> int64 \<Rightarrow> EventLogger \<Rightarrow> EventLogger" where
  "LogLockReleased ticketID toolID threadID holdDurationMs el =
     updateMaxHoldTime holdDurationMs
       (el\<lparr>locksReleased := locksReleased el + 1,
           totalHoldTime := totalHoldTime el + holdDurationMs,
           holdCount := holdCount el + 1\<rparr>)"

definition LogLockExpired ::
  "string \<Rightarrow> string \<Rightarrow> string \<Rightarrow> string \<Rightarrow> int64 \<Rightarrow> EventLogger \<Rightarrow> EventLogger" where
  "LogLockExpired ticketID toolID threadID reason holdDurationMs el =
     el\<lparr>locksExpired := locksExpired el + 1\<rparr>"

definition LogLockExtended :: "string \<Rightarrow> string \<Rightarrow> string \<Rightarrow> int \<Rightarrow> EventLogger \<Rightarrow> EventLogger" where
  "LogLockExtended ticketID toolID threadID extendCount el = el"

definition LogTicketExpired :: "string \<Rightarrow> string \<Rightarrow> string \<Rightarrow> string \<Rightarrow> EventLogger \<Rightarrow> EventLogger" where
  "LogTicketExpired ticketID toolID threadID reason el =
     el\<lparr>expiredTickets := expiredTickets el + 1\<rparr>"

definition IncrementErrors :: "EventLogger \<Rightarrow> EventLogger" where
  "IncrementErrors el = el\<lparr>failedRequests := failedRequests el + 1\<rparr>"

text \<open>
  \<open>GetMinuteMetrics\<close>: the fields \<open>ActiveTools\<close>, \<open>QueueLength\<close> and
  \<open>CurrentLockHolder\<close> keep their zero values; the caller fills them in.
\<close>

definition GetMinuteMetrics :: "int \<Rightarrow> EventLogger \<Rightarrow> SystemMetricsLog \<times> EventLogger" where
  "GetMinuteMetrics now el =
     (let waitCount' = waitCount el;
          holdCount' = holdCount el;
          totalWait = totalWaitTime el;
          totalHold = totalHoldTime el;
          avgWait = (if 0 < sint waitCount' then int64_div totalWait waitCount' else 0);
          avgHold = (if 0 < sint holdCount' then int64_div totalHold holdCount' else 0)
      in (\<lparr>Timestamp = now, ActiveTools = 0, QueueLength = 0, CurrentLockHolder = [],
            LocksGrantedLastMin = locksGranted el,
            AvgWaitTimeMs = avgWait, AvgHoldTimeMs = avgHold,
            ExpiredTickets = expiredTickets el, FailedRequests = failedRequests el\<rparr>,
          el\<lparr>waitCount := 0, holdCount := 0, totalWaitTime := 0, totalHoldTime := 0,
             locksGranted := 0, expiredTickets := 0, failedRequests := 0,
             locksReleased := 0, locksExpired := 0\<rparr>))"


section \<open>Executions\<close>

text \<open>\<open>ExtendLock\<close> called once for each clock reading of a list, one call after the other.\<close>

fun ExtendLock_run ::
  "Config \<Rightarrow> string \<Rightarrow> int list \<Rightarrow> LockManager \<Rightarrow> (error + addr) list \<times> LockManager" where
  "ExtendLock_run cfg ticketID [] lm = ([], lm)"
| "ExtendLock_run cfg ticketID (t # ts) lm =
     (case ExtendLock cfg t ticketID lm of
        (r, lm1) \<Rightarrow>
          (case ExtendLock_run cfg ticketID ts lm1 of (rs, lm2) \<Rightarrow> (r # rs, lm2)))"

text \<open>An execution of the logger: the calls it receives, in order.\<close>

datatype logger_call =
    CallLockRequested string string string int
  | CallLockGranted string string string int64
  | CallLockReleased string string string int64
  | CallLockExpired string string string string int64
  | CallLockExtended string string string int
  | CallTicketExpired string string string string
  | CallIncrementErrors
  | CallGetMinuteMetrics int

fun logger_step :: "logger_call \<Rightarrow> EventLogger \<Rightarrow> SystemMetricsLog list \<times> EventLogger" where
  "logger_step (CallLockRequested i t th p) el = ([], LogLockRequested i t th p el)"
| "logger_step (CallLockGranted i t th w) el = ([], LogLockGranted i t th w el)"
| "logger_step (CallLockReleased i t th h) el = ([], LogLockReleased i t th h el)"
| "logger_step (CallLockExpired i t th r h) el = ([], LogLockExpired i t th r h el)"
| "logger_step (CallLockExtended i t th c) el = ([], LogLockExtended i t th c el)"
| "logger_step (CallTicketExpired i t th r) el = ([], LogTicketExpired i t th r el)"
| "logger_step CallIncrementErrors el = ([], IncrementErrors el)"
| "logger_step (CallGetMinuteMetrics now) el =
     (case GetMinuteMetrics now el of (m, el') \<Rightarrow> ([m], el'))"

text \<open>The snapshots returned during an execution, in order, and the final state.\<close>

fun logger_run :: "logger_call list \<Rightarrow> EventLogger \<Rightarrow> SystemMetricsLog list \<times> EventLogger" where
  "logger_run [] el = ([], el)"
| "logger_run (c # cs) el =
     (case logger_step c el of
        (ms, el1) \<Rightarrow> (case logger_run cs el1 of (ms', el2) \<Rightarrow> (ms @ ms', el2)))"

fun is_granted :: "logger_call \<Rightarrow> bool" where
  "is_granted (CallLockGranted i t th w) = True"
| "is_granted c = False"

fun is_ticket_expired :: "logger_call \<Rightarrow> bool" where
  "is_ticket_expired (CallTicketExpired i t th r) = True"
| "is_ticket_expired c = False"

fun is_error :: "logger_call \<Rightarrow> bool" where
  "is_error CallIncrementErrors = True"
| "is_error c = False"


section \<open>Reachable states and their invariant\<close>

text \<open>
  The tickets the manager refers to: the holder, if any, followed by the queue. A ticket
  object that was removed from both is garbage: no field of the manager points to it.
\<close>

definition holder :: "LockManager \<Rightarrow> addr list" where
  "holder lm = (case currentLock lm of None \<Rightarrow> [] | Some a \<Rightarrow> [a])"

definition live :: "LockManager \<Rightarrow> addr list" where
  "live lm = holder lm @ queue lm"

text \<open>
  The invariant: holder and queue are in order of creation and point into the store;
  queued tickets are waiting and were never extended, the holder is granted; ticket
  identifiers are pairwise different; the ticket map holds exactly the live tickets under
  their identifiers, and the thread-key map holds exactly their keys.
\<close>

definition inv_order :: "LockManager \<Rightarrow> bool" where
  "inv_order lm \<longleftrightarrow> sorted_wrt (<) (live lm) \<and> (\<forall>a \<in> set (live lm). a < length (heap lm))"

definition inv_status :: "LockManager \<Rightarrow> bool" where
  "inv_status lm \<longleftrightarrow>
     (\<forall>a \<in> set (queue lm).
        Status (heap lm ! a) = TicketStatusWaiting \<and> ExtendCount (heap lm ! a) = 0) \<and>
     (\<forall>a. currentLock lm = Some a \<longrightarrow> Status (heap lm ! a) = TicketStatusGranted)"

definition inv_ids :: "LockManager \<Rightarrow> bool" where
  "inv_ids lm \<longleftrightarrow> distinct (map TicketID (heap lm))"

definition inv_tickets :: "LockManager \<Rightarrow> bool" where
  "inv_tickets lm \<longleftrightarrow>
     (\<forall>i a. tickets lm i = Some a \<longrightarrow> a \<in> set (live lm) \<and> TicketID (heap lm ! a) = i)"

definition inv_index :: "LockManager \<Rightarrow> bool" where
  "inv_index lm \<longleftrightarrow>
     (\<forall>a \<in> set (live lm). tickets lm (TicketID (heap lm ! a)) = Some a \<and>
        threadKeys lm (Key (heap lm ! a)) = Some (TicketID (heap lm ! a)))"

definition inv_keys :: "LockManager \<Rightarrow> bool" where
  "inv_keys lm \<longleftrightarrow>
     (\<forall>k i. threadKeys lm k = Some i \<longrightarrow> (\<exists>a. tickets lm i = Some a \<and> Key (heap lm ! a) = k))"

definition lm_inv :: "LockManager \<Rightarrow> bool" where
  "lm_inv lm \<longleftrightarrow>
     inv_order lm \<and> inv_status lm \<and> inv_ids lm \<and> inv_tickets lm \<and> inv_index lm \<and> inv_keys lm"

text \<open>
  The states reached from \<open>NewLockManager\<close> by the public operations, each with any
  configuration, registry state and clock reading. The identifier drawn by
  \<open>uuid.New()\<close> is different from every identifier drawn before.
\<close>

inductive reach :: "LockManager \<Rightarrow> bool" where
  reach_New: "reach NewLockManager"
| reach_RequestLock:
    "reach lm \<Longrightarrow> uuid \<notin> TicketID ` set (heap lm) \<Longrightarrow>
       reach (snd (RequestLock cfg tr now uuid toolID threadID lm))"
| reach_CheckLock: "reach lm \<Longrightarrow> reach (snd (CheckLock cfg now ticketID lm))"
| reach_ReleaseLock: "reach lm \<Longrightarrow> reach (snd (ReleaseLock cfg now ticketID lm))"
| reach_ExtendLock: "reach lm \<Longrightarrow> reach (snd (ExtendLock cfg now ticketID lm))"
| reach_ExpireCurrentLock: "reach lm \<Longrightarrow> reach (snd (ExpireCurrentLock cfg now reason lm))"
| reach_ExpireWaitingTickets: "reach lm \<Longrightarrow> reach (snd (ExpireWaitingTickets cfg now lm))"
| reach_CheckGracePeriod: "reach lm \<Longrightarrow> reach (snd (CheckGracePeriod cfg now lm))"
| reach_CheckLockExpiry: "reach lm \<Longrightarrow> reach (snd (CheckLockExpiry cfg now lm))"
| reach_RemoveToolTickets: "reach lm \<Longrightarrow> reach (snd (RemoveToolTickets cfg now toolID lm))"

code_pred reach .

text \<open>A ticket the manager can still reach through one of its fields.\<close>

definition referenced :: "LockManager \<Rightarrow> addr \<Rightarrow> bool" where
  "referenced lm a \<longleftrightarrow> a \<in> set (queue lm) \<or> currentLock lm = Some a \<or> a \<in> ran (tickets lm)"

text \<open>The body of the sweep for one expired ticket: \<open>Expire\<close>, then \<open>cleanupTicket\<close>.\<close>

definition expireOne :: "addr \<Rightarrow> LockManager \<Rightarrow> LockManager" where
  "expireOne a lm = cleanupTicket a (updTicket a Expire lm)"


section \<open>Concrete executions used as examples\<close>

text \<open>Two registered tools, both online.\<close>

definition two_tools :: ToolRegistry where
  "two_tools = snd (Register 0 ''T2'' (snd (Register 0 ''T1'' NewToolRegistry)))"

text \<open>The first tool asks for the lock at time 0 and holds it.\<close>

definition just_granted :: LockManager where
  "just_granted = snd (RequestLock Default two_tools 0 ''u1'' ''T1'' ''th1'' NewLockManager)"

text \<open>The second tool asks at time 1 and waits.\<close>

definition held_and_queued :: LockManager where
  "held_and_queued =
     snd (RequestLock Default two_tools 1 ''u2'' ''T2'' ''th1''
       (snd (RequestLock Default two_tools 0 ''u1'' ''T1'' ''th1'' NewLockManager)))"

text \<open>The holder releases at time 2 and the waiting ticket is granted.\<close>

definition released_then_granted :: LockManager where
  "released_then_granted = snd (ReleaseLock Default 2 ''u1'' held_and_queued)"



text \<open>
  Two locks granted, one released, one expired, one waiting ticket expired; the metrics
  are collected after the first grant and at the end.
\<close>

definition sample_calls :: "logger_call list" where
  "sample_calls =
     [CallLockGranted ''u1'' ''T1'' ''th1'' 0, CallGetMinuteMetrics 60,
      CallLockReleased ''u1'' ''T1'' ''th1'' 5, CallLockGranted ''u2'' ''T2'' ''th1'' 7,
      CallTicketExpired ''u3'' ''T1'' ''th2'' ''ttl_expired'',
      CallLockExpired ''u2'' ''T2'' ''th1'' ''max_duration_expired'' 21000,
      CallGetMinuteMetrics 120]"


section \<open>Invariants and properties\<close>

lemma Ticket_op_simps [simp]:
  "TicketID (Expire t) = TicketID t" "ToolID (Expire t) = ToolID t" "ThreadID (Expire t) = ThreadID t"
  "TicketID (Release t) = TicketID t" "ToolID (Release t) = ToolID t" "ThreadID (Release t) = ThreadID t"
  "TicketID (Grant now d t) = TicketID t" "ToolID (Grant now d t) = ToolID t" "ThreadID (Grant now d t) = ThreadID t"
  "TicketID (UpdatePollTime now t) = TicketID t" "ToolID (UpdatePollTime now t) = ToolID t"
  "ThreadID (UpdatePollTime now t) = ThreadID t"
  "TicketID (Extend now d t) = TicketID t" "ToolID (Extend now d t) = ToolID t" "ThreadID (Extend now d t) = ThreadID t"
  "Status (Expire t) = TicketStatusExpired" "Status (Release t) = TicketStatusReleased"
  "Status (Grant now d t) = TicketStatusGranted" "Status (UpdatePollTime now t) = Status t"
  "Status (Extend now d t) = Status t"
  "ExtendCount (UpdatePollTime now t) = ExtendCount t"
  "ExtendCount (Grant now d t) = ExtendCount t"
  by (simp_all add: Expire_def Release_def Grant_def UpdatePollTime_def Extend_def)

lemma Key_op_simps [simp]:
  "Key (Expire t) = Key t" "Key (Release t) = Key t" "Key (Grant now d t) = Key t"
  "Key (UpdatePollTime now t) = Key t" "Key (Extend now d t) = Key t"
  by (simp_all add: Key_def)

lemma updTicket_simps [simp]:
  "heap (updTicket a f lm) = (heap lm)[a := f (heap lm ! a)]"
  "queue (updTicket a f lm) = queue lm"
  "currentLock (updTicket a f lm) = currentLock lm"
  "tickets (updTicket a f lm) = tickets lm"
  "threadKeys (updTicket a f lm) = threadKeys lm"
  by (simp_all add: updTicket_def)

lemma cleanupTicket_simps [simp]:
  "heap (cleanupTicket a lm) = heap lm"
  "queue (cleanupTicket a lm) = queue lm"
  "currentLock (cleanupTicket a lm) = currentLock lm"
  "tickets (cleanupTicket a lm) = (tickets lm)(TicketID (heap lm ! a) := None)"
  "threadKeys (cleanupTicket a lm) = (threadKeys lm)(Key (heap lm ! a) := None)"
  by (simp_all add: cleanupTicket_def)

lemma live_simps:
  "currentLock lm = None \<Longrightarrow> live lm = queue lm"
  "currentLock lm = Some a \<Longrightarrow> live lm = a # queue lm"
  by (simp_all add: live_def holder_def)

text \<open>Grant step\<close>

lemma tryGrantNext_cases:
  "tryGrantNext cfg now lm =
     (if currentLock lm = None \<and> queue lm \<noteq> []
      then (updTicket (hd (queue lm)) (Grant now (LockMaxDuration cfg * second))
              (lm\<lparr>queue := tl (queue lm)\<rparr>))\<lparr>currentLock := Some (hd (queue lm))\<rparr>
      else lm)"
  by (auto simp: tryGrantNext_def split: list.splits)

lemma live_grant:
  "currentLock lm = None \<Longrightarrow> queue lm \<noteq> [] \<Longrightarrow>
   live ((updTicket (hd (queue lm)) f (lm\<lparr>queue := tl (queue lm)\<rparr>))\<lparr>currentLock := Some (hd (queue lm))\<rparr>) = live lm"
  by (simp add: live_def holder_def)

lemma inv_order_tryGrantNext: "inv_order lm \<Longrightarrow> inv_order (tryGrantNext cfg now lm)"
  by (simp add: tryGrantNext_cases inv_order_def live_grant)

lemma inv_status_tryGrantNext:
  assumes "inv_order lm" "inv_status lm"
  shows "inv_status (tryGrantNext cfg now lm)"
proof (cases "currentLock lm = None \<and> queue lm \<noteq> []")
  case False
  then show ?thesis using assms by (auto simp: tryGrantNext_cases)
next
  case True
  then obtain a rest where q: "queue lm = a # rest" by (cases "queue lm") auto
  from assms(1) True q have "a < length (heap lm)" "a \<notin> set rest"
    by (auto simp: inv_order_def live_simps)
  with assms(2) True q show ?thesis
    by (auto simp: tryGrantNext_cases inv_status_def nth_list_update)
qed

lemma map_update_same: "(map F h)[a := F (h ! a)] = map F h"
  by (cases "a < length h") (simp_all add: list_update_same_conv list_update_beyond)

lemma inv_ids_upd: "inv_ids lm \<Longrightarrow> (\<And>t. TicketID (f t) = TicketID t) \<Longrightarrow> inv_ids (updTicket a f lm)"
  by (simp add: inv_ids_def map_update map_update_same)

lemma inv_ids_tryGrantNext: "inv_ids lm \<Longrightarrow> inv_ids (tryGrantNext cfg now lm)"
  by (simp add: tryGrantNext_cases inv_ids_def map_update map_update_same)

lemma nth_upd_TicketID:
  "(\<And>t. TicketID (f t) = TicketID t) \<Longrightarrow> TicketID (h[a := f (h ! a)] ! b) = TicketID (h ! b)"
  by (cases "a < length h"; cases "a = b") (simp_all add: not_less list_update_beyond)

lemma nth_upd_Key:
  "(\<And>t. Key (f t) = Key t) \<Longrightarrow> Key (h[a := f (h ! a)] ! b) = Key (h ! b)"
  by (cases "a < length h"; cases "a = b") (simp_all add: not_less list_update_beyond)

lemma nth_upd_ToolID:
  "(\<And>t. ToolID (f t) = ToolID t) \<Longrightarrow> ToolID (h[a := f (h ! a)] ! b) = ToolID (h ! b)"
  by (cases "a < length h"; cases "a = b") (simp_all add: not_less list_update_beyond)

lemma inv_tickets_tryGrantNext: "inv_tickets lm \<Longrightarrow> inv_tickets (tryGrantNext cfg now lm)"
  by (simp add: tryGrantNext_cases inv_tickets_def live_grant nth_upd_TicketID)

lemma inv_index_tryGrantNext: "inv_index lm \<Longrightarrow> inv_index (tryGrantNext cfg now lm)"
  by (simp add: tryGrantNext_cases inv_index_def live_grant nth_upd_TicketID nth_upd_Key)

lemma inv_keys_tryGrantNext: "inv_keys lm \<Longrightarrow> inv_keys (tryGrantNext cfg now lm)"
  by (simp add: tryGrantNext_cases inv_keys_def nth_upd_Key)

lemma inv_tryGrantNext: "lm_inv lm \<Longrightarrow> lm_inv (tryGrantNext cfg now lm)"
  by (simp add: lm_inv_def inv_order_tryGrantNext inv_status_tryGrantNext inv_ids_tryGrantNext
        inv_tickets_tryGrantNext inv_index_tryGrantNext inv_keys_tryGrantNext)

text \<open>Facts that follow from the invariant\<close>

lemma inv_live_bound: "lm_inv lm \<Longrightarrow> a \<in> set (live lm) \<Longrightarrow> a < length (heap lm)"
  by (simp add: lm_inv_def inv_order_def)

lemma inv_live_distinct: "lm_inv lm \<Longrightarrow> distinct (live lm)"
  by (simp add: lm_inv_def inv_order_def strict_sorted_iff)

lemma inv_id_inj:
  assumes "lm_inv lm" "a \<in> set (live lm)" "b \<in> set (live lm)"
    "TicketID (heap lm ! a) = TicketID (heap lm ! b)"
  shows "a = b"
proof -
  have "distinct (map TicketID (heap lm))" using assms(1) by (simp add: lm_inv_def inv_ids_def)
  moreover have "a < length (heap lm)" "b < length (heap lm)"
    using assms by (auto intro: inv_live_bound)
  ultimately show ?thesis using assms(4)
    by (metis distinct_conv_nth length_map nth_map)
qed

lemma inv_key_inj:
  assumes "lm_inv lm" "a \<in> set (live lm)" "b \<in> set (live lm)"
    "Key (heap lm ! a) = Key (heap lm ! b)"
  shows "a = b"
proof -
  have "threadKeys lm (Key (heap lm ! a)) = Some (TicketID (heap lm ! a))"
    using assms(1,2) by (simp add: lm_inv_def inv_index_def)
  moreover have "threadKeys lm (Key (heap lm ! b)) = Some (TicketID (heap lm ! b))"
    using assms(1,3) by (simp add: lm_inv_def inv_index_def)
  ultimately have "TicketID (heap lm ! a) = TicketID (heap lm ! b)" using assms(4) by simp
  then show ?thesis using assms by (auto intro: inv_id_inj)
qed

text \<open>Removing one live ticket \<open>a\<close> together with its index entries\<close>

lemma inv_remove:
  assumes inv: "lm_inv lm"
    and a: "a \<in> set (live lm)"
    and fid: "\<And>t. TicketID (f t) = TicketID t" and fkey: "\<And>t. Key (f t) = Key t"
    and h: "heap lm' = (heap lm)[a := f (heap lm ! a)]"
    and l: "live lm' = removeAll a (live lm)"
    and q: "set (queue lm') \<subseteq> set (queue lm)"
    and c: "currentLock lm' = None \<or> (currentLock lm' = currentLock lm \<and> currentLock lm \<noteq> Some a)"
    and t: "tickets lm' = (tickets lm)(TicketID (heap lm ! a) := None)"
    and k: "threadKeys lm' = (threadKeys lm)(Key (heap lm ! a) := None)"
  shows "lm_inv lm'"
proof -
  have d: "distinct (live lm)" using inv by (rule inv_live_distinct)
  have sub: "set (live lm') = set (live lm) - {a}" using l by auto
  have ids [simp]: "\<And>b. TicketID (heap lm' ! b) = TicketID (heap lm ! b)"
    by (simp add: h nth_upd_TicketID fid)
  have keys [simp]: "\<And>b. Key (heap lm' ! b) = Key (heap lm ! b)"
    by (simp add: h nth_upd_Key fkey)
  have other: "\<And>b. b \<noteq> a \<Longrightarrow> heap lm' ! b = heap lm ! b" by (simp add: h)
  have 1: "inv_order lm'"
    using inv l by (auto simp: lm_inv_def inv_order_def h removeAll_filter_not_eq sorted_wrt_filter)
  have qa: "a \<notin> set (queue lm')"
    using sub by (auto simp: live_def)
  have 2: "inv_status lm'"
    unfolding inv_status_def
  proof (rule conjI; intro ballI allI impI)
    fix b assume b: "b \<in> set (queue lm')"
    then have "b \<noteq> a" using qa by auto
    moreover have "b \<in> set (queue lm)" using b q by auto
    ultimately show "Status (heap lm' ! b) = TicketStatusWaiting \<and> ExtendCount (heap lm' ! b) = 0"
      using inv by (simp add: other lm_inv_def inv_status_def)
  next
    fix b assume "currentLock lm' = Some b"
    with c have "currentLock lm = Some b" "b \<noteq> a" by auto
    then show "Status (heap lm' ! b) = TicketStatusGranted"
      using inv by (simp add: other lm_inv_def inv_status_def)
  qed
  have 3: "inv_ids lm'"
    using inv by (simp add: lm_inv_def inv_ids_def h map_update fid map_update_same)
  have 4: "inv_tickets lm'"
    unfolding inv_tickets_def
  proof (intro allI impI)
    fix i b assume "tickets lm' i = Some b"
    then have i: "i \<noteq> TicketID (heap lm ! a)" and b: "tickets lm i = Some b"
      by (auto simp: t split: if_splits)
    then have "b \<in> set (live lm)" "TicketID (heap lm ! b) = i"
      using inv by (auto simp: lm_inv_def inv_tickets_def)
    with i show "b \<in> set (live lm') \<and> TicketID (heap lm' ! b) = i"
      by (auto simp: sub)
  qed
  have 5: "inv_index lm'"
    unfolding inv_index_def
  proof (intro ballI)
    fix b assume "b \<in> set (live lm')"
    then have b: "b \<in> set (live lm)" "b \<noteq> a" by (auto simp: sub)
    then have "TicketID (heap lm ! b) \<noteq> TicketID (heap lm ! a)" "Key (heap lm ! b) \<noteq> Key (heap lm ! a)"
      using inv a inv_id_inj inv_key_inj by blast+
    moreover have "tickets lm (TicketID (heap lm ! b)) = Some b"
      "threadKeys lm (Key (heap lm ! b)) = Some (TicketID (heap lm ! b))"
      using inv b by (auto simp: lm_inv_def inv_index_def)
    ultimately show "tickets lm' (TicketID (heap lm' ! b)) = Some b \<and>
        threadKeys lm' (Key (heap lm' ! b)) = Some (TicketID (heap lm' ! b))"
      by (simp add: t k)
  qed
  have 6: "inv_keys lm'"
    unfolding inv_keys_def
  proof (intro allI impI)
    fix k' i assume "threadKeys lm' k' = Some i"
    then have k': "k' \<noteq> Key (heap lm ! a)" and "threadKeys lm k' = Some i"
      by (auto simp: k split: if_splits)
    then obtain b where b: "tickets lm i = Some b" "Key (heap lm ! b) = k'"
      using inv by (auto simp: lm_inv_def inv_keys_def)
    then have bl: "b \<in> set (live lm)" "TicketID (heap lm ! b) = i"
      using inv by (auto simp: lm_inv_def inv_tickets_def)
    have "b \<noteq> a" using b k' by auto
    then have "i \<noteq> TicketID (heap lm ! a)" using bl inv a inv_id_inj by blast
    then show "\<exists>b. tickets lm' i = Some b \<and> Key (heap lm' ! b) = k'"
      using b by (simp add: t)
  qed
  show ?thesis using 1 2 3 4 5 6 by (simp add: lm_inv_def)
qed

lemma removeAll_distinct_mid: "distinct (xs @ a # ys) \<Longrightarrow> removeAll a (xs @ a # ys) = xs @ ys"
  by (simp add: removeAll_id)

lemma inv_remove_holder:
  assumes "lm_inv lm" "currentLock lm = Some a"
    "\<And>t. TicketID (f t) = TicketID t" "\<And>t. Key (f t) = Key t"
  shows "lm_inv (cleanupTicket a ((updTicket a f lm)\<lparr>currentLock := None\<rparr>))"
proof (rule inv_remove [OF assms(1) _ assms(3,4)])
  show "a \<in> set (live lm)" using assms(2) by (simp add: live_simps)
  have "distinct (a # queue lm)" using inv_live_distinct [OF assms(1)] assms(2) by (simp add: live_simps)
  then show "live (cleanupTicket a ((updTicket a f lm)\<lparr>currentLock := None\<rparr>)) = removeAll a (live lm)"
    using assms(2) by (simp add: live_def holder_def removeAll_id)
qed (simp_all add: nth_upd_TicketID nth_upd_Key assms(3,4))

lemma inv_remove_queued:
  assumes "lm_inv lm" "queue lm = xs @ a # ys"
    "\<And>t. TicketID (f t) = TicketID t" "\<And>t. Key (f t) = Key t"
  shows "lm_inv ((cleanupTicket a (updTicket a f lm))\<lparr>queue := xs @ ys\<rparr>)"
proof (rule inv_remove [OF assms(1) _ assms(3,4)])
  show "a \<in> set (live lm)" using assms(2) by (simp add: live_def)
  have d: "distinct (holder lm @ xs @ a # ys)"
    using inv_live_distinct [OF assms(1)] assms(2) by (simp add: live_def)
  then have "removeAll a (holder lm @ xs @ a # ys) = holder lm @ xs @ ys"
    using removeAll_distinct_mid [of "holder lm @ xs" a ys] by simp
  then show "live ((cleanupTicket a (updTicket a f lm))\<lparr>queue := xs @ ys\<rparr>) = removeAll a (live lm)"
    using assms(2) by (simp add: live_def holder_def)
  show "currentLock ((cleanupTicket a (updTicket a f lm))\<lparr>queue := xs @ ys\<rparr>) = None \<or>
    currentLock ((cleanupTicket a (updTicket a f lm))\<lparr>queue := xs @ ys\<rparr>) = currentLock lm \<and>
    currentLock lm \<noteq> Some a"
    using d by (auto simp: holder_def)
qed (auto simp: nth_upd_TicketID nth_upd_Key assms)

text \<open>A method call that changes neither the identity nor the status of a ticket\<close>

lemma inv_upd:
  assumes "lm_inv lm"
    "\<And>t. TicketID (f t) = TicketID t" "\<And>t. Key (f t) = Key t" "\<And>t. Status (f t) = Status t"
    "currentLock lm = Some a \<or> (\<forall>t. ExtendCount (f t) = ExtendCount t)"
  shows "lm_inv (updTicket a f lm)"
proof -
  have st: "\<And>b. Status ((heap lm)[a := f (heap lm ! a)] ! b) = Status (heap lm ! b)"
    by (cases "a < length (heap lm)") (simp_all add: nth_list_update assms(4) not_less list_update_beyond)
  have "a \<notin> set (queue lm) \<or> (\<forall>t. ExtendCount (f t) = ExtendCount t)"
    using assms(5) inv_live_distinct [OF assms(1)] by (auto simp: live_simps)
  then have ec: "\<And>b. b \<in> set (queue lm) \<Longrightarrow>
      ExtendCount ((heap lm)[a := f (heap lm ! a)] ! b) = ExtendCount (heap lm ! b)"
    by (cases "a < length (heap lm)") (auto simp: nth_list_update not_less list_update_beyond)
  have l: "live (updTicket a f lm) = live lm" by (simp add: live_def holder_def)
  show ?thesis
    using assms(1)
    by (simp add: lm_inv_def inv_order_def inv_status_def inv_ids_def inv_tickets_def inv_index_def
        inv_keys_def l st ec nth_upd_TicketID nth_upd_Key assms(2,3) map_update map_update_same)
qed

text \<open>Creating and enqueueing a ticket\<close>

lemma existingTicket_None_key:
  assumes "lm_inv lm" "existingTicket lm key = None" "a \<in> set (live lm)"
  shows "Key (heap lm ! a) \<noteq> key"
proof
  assume k: "Key (heap lm ! a) = key"
  have "tickets lm (TicketID (heap lm ! a)) = Some a"
    "threadKeys lm (Key (heap lm ! a)) = Some (TicketID (heap lm ! a))"
    using assms(1,3) by (simp_all add: lm_inv_def inv_index_def)
  moreover have "Status (heap lm ! a) = TicketStatusWaiting \<or> Status (heap lm ! a) = TicketStatusGranted"
    using assms(1,3) by (auto simp: lm_inv_def inv_status_def live_def holder_def split: option.splits)
  ultimately show False using assms(2) k
    by (auto simp: existingTicket_def IsWaiting_def IsGranted_def)
qed

lemma inv_new:
  assumes inv: "lm_inv lm"
    and fresh: "uuid \<notin> TicketID ` set (heap lm)"
    and ex: "existingTicket lm (Key t) = None"
    and t: "TicketID t = uuid" "Status t = TicketStatusWaiting" "ExtendCount t = 0"
  shows "lm_inv (lm\<lparr>heap := heap lm @ [t],
                    tickets := (tickets lm)(uuid \<mapsto> length (heap lm)),
                    threadKeys := (threadKeys lm)(Key t \<mapsto> uuid),
                    queue := queue lm @ [length (heap lm)]\<rparr>)"
    (is "lm_inv ?lm'")
proof -
  let ?n = "length (heap lm)"
  have b: "\<And>a. a \<in> set (live lm) \<Longrightarrow> a < ?n" using inv by (rule inv_live_bound)
  have l: "live ?lm' = live lm @ [?n]" by (simp add: live_def holder_def)
  have old: "\<And>a. a \<in> set (live lm) \<Longrightarrow> heap ?lm' ! a = heap lm ! a"
    using b by (simp add: nth_append)
  have idn: "\<And>a. a \<in> set (live lm) \<Longrightarrow> TicketID (heap lm ! a) \<noteq> uuid"
    using fresh b by (metis image_eqI nth_mem)
  have 1: "inv_order ?lm'"
    using inv b by (auto simp: lm_inv_def inv_order_def l sorted_wrt_append less_Suc_eq)
  have 2: "inv_status ?lm'"
    using inv b t(2,3)
    by (auto simp: lm_inv_def inv_status_def nth_append live_def holder_def)
  have 3: "inv_ids ?lm'"
    using inv fresh t(1) by (simp add: lm_inv_def inv_ids_def)
  have 4: "inv_tickets ?lm'"
    unfolding inv_tickets_def
  proof (intro allI impI)
    fix i a assume "tickets ?lm' i = Some a"
    then consider "i = uuid" "a = ?n" | "i \<noteq> uuid" "tickets lm i = Some a"
      by (auto split: if_splits)
    then show "a \<in> set (live ?lm') \<and> TicketID (heap ?lm' ! a) = i"
    proof cases
      case 1 then show ?thesis by (simp add: l t(1))
    next
      case 2
      then have "a \<in> set (live lm)" "TicketID (heap lm ! a) = i"
        using inv by (auto simp: lm_inv_def inv_tickets_def)
      then show ?thesis using old [of a] by (simp add: l)
    qed
  qed
  have 5: "inv_index ?lm'"
    unfolding inv_index_def
  proof (intro ballI)
    fix a assume "a \<in> set (live ?lm')"
    then consider "a = ?n" | "a \<in> set (live lm)" by (auto simp: l)
    then show "tickets ?lm' (TicketID (heap ?lm' ! a)) = Some a \<and>
        threadKeys ?lm' (Key (heap ?lm' ! a)) = Some (TicketID (heap ?lm' ! a))"
    proof cases
      case 1 then show ?thesis by (simp add: t(1))
    next
      case 2
      have "tickets lm (TicketID (heap lm ! a)) = Some a"
        "threadKeys lm (Key (heap lm ! a)) = Some (TicketID (heap lm ! a))"
        using inv 2 by (simp_all add: lm_inv_def inv_index_def)
      moreover have "Key (heap lm ! a) \<noteq> Key t"
        using existingTicket_None_key [OF inv ex 2] .
      ultimately show ?thesis using idn [OF 2] old [OF 2] by simp
    qed
  qed
  have 6: "inv_keys ?lm'"
    unfolding inv_keys_def
  proof (intro allI impI)
    fix k i assume "threadKeys ?lm' k = Some i"
    then consider "k = Key t" "i = uuid" | "k \<noteq> Key t" "threadKeys lm k = Some i"
      by (auto split: if_splits)
    then show "\<exists>a. tickets ?lm' i = Some a \<and> Key (heap ?lm' ! a) = k"
    proof cases
      case 1 then show ?thesis by simp
    next
      case 2
      then obtain a where a: "tickets lm i = Some a" "Key (heap lm ! a) = k"
        using inv by (auto simp: lm_inv_def inv_keys_def)
      then have al: "a \<in> set (live lm)" "TicketID (heap lm ! a) = i"
        using inv by (auto simp: lm_inv_def inv_tickets_def)
      then have "i \<noteq> uuid" using idn by auto
      then show ?thesis using a old [OF al(1)] by simp
    qed
  qed
  show ?thesis using 1 2 3 4 5 6 by (simp add: lm_inv_def)
qed

text \<open>Each operation of the manager preserves the invariant\<close>

lemma Key_NewTicket [simp]: "Key (NewTicket now uuid toolID threadID) = toolID @ '':'' @ threadID"
  by (simp add: Key_def NewTicket_def)

lemma NewTicket_simps [simp]:
  "TicketID (NewTicket now uuid toolID threadID) = uuid"
  "ToolID (NewTicket now uuid toolID threadID) = toolID"
  "ThreadID (NewTicket now uuid toolID threadID) = threadID"
  "Status (NewTicket now uuid toolID threadID) = TicketStatusWaiting"
  "LastPollAt (NewTicket now uuid toolID threadID) = now"
  "RequestedAt (NewTicket now uuid toolID threadID) = now"
  "ExtendCount (NewTicket now uuid toolID threadID) = 0"
  by (simp_all add: NewTicket_def)

lemma inv_RequestLock:
  assumes "lm_inv lm" "uuid \<notin> TicketID ` set (heap lm)"
  shows "lm_inv (snd (RequestLock cfg tr now uuid toolID threadID lm))"
proof (cases "IsOnline tr toolID \<and> existingTicket lm (toolID @ '':'' @ threadID) = None")
  case False
  then show ?thesis using assms(1) by (auto simp: RequestLock_def split: option.splits)
next
  case True
  have "lm_inv (lm\<lparr>heap := heap lm @ [NewTicket now uuid toolID threadID],
                    tickets := (tickets lm)(uuid \<mapsto> length (heap lm)),
                    threadKeys := (threadKeys lm)(toolID @ '':'' @ threadID \<mapsto> uuid),
                    queue := queue lm @ [length (heap lm)]\<rparr>)"
    using inv_new [OF assms, of "NewTicket now uuid toolID threadID"] True by simp
  then show ?thesis using True by (simp add: RequestLock_def Let_def inv_tryGrantNext)
qed

lemma inv_CheckLock: "lm_inv lm \<Longrightarrow> lm_inv (snd (CheckLock cfg now ticketID lm))"
  by (simp add: CheckLock_def Let_def inv_upd split: option.splits)

lemma holder_lookup:
  assumes "lm_inv lm" "tickets lm i = Some a"
  shows "notHolder lm i \<longleftrightarrow> currentLock lm \<noteq> Some a"
proof (cases "currentLock lm")
  case None
  then show ?thesis by (simp add: notHolder_def)
next
  case (Some c)
  have a: "a \<in> set (live lm)" "TicketID (heap lm ! a) = i"
    using assms by (auto simp: lm_inv_def inv_tickets_def)
  have c: "c \<in> set (live lm)" using Some by (simp add: live_simps)
  have "TicketID (heap lm ! c) = i \<longleftrightarrow> c = a"
    using inv_id_inj [OF assms(1) c a(1)] a(2) by auto
  then show ?thesis using Some by (auto simp: notHolder_def)
qed

lemma inv_ReleaseLock: "lm_inv lm \<Longrightarrow> lm_inv (snd (ReleaseLock cfg now ticketID lm))"
  by (auto simp: ReleaseLock_def holder_lookup inv_tryGrantNext inv_remove_holder split: option.splits)

lemma inv_ExtendLock: "lm_inv lm \<Longrightarrow> lm_inv (snd (ExtendLock cfg now ticketID lm))"
  by (auto simp: ExtendLock_def holder_lookup intro!: inv_upd split: option.splits)

lemma inv_ExpireCurrentLock: "lm_inv lm \<Longrightarrow> lm_inv (snd (ExpireCurrentLock cfg now reason lm))"
  by (simp add: ExpireCurrentLock_def inv_tryGrantNext inv_remove_holder split: option.splits)

lemma inv_CheckGracePeriod: "lm_inv lm \<Longrightarrow> lm_inv (snd (CheckGracePeriod cfg now lm))"
  by (simp add: CheckGracePeriod_def inv_tryGrantNext inv_remove_holder split: option.splits)

lemma inv_CheckLockExpiry: "lm_inv lm \<Longrightarrow> lm_inv (snd (CheckLockExpiry cfg now lm))"
  by (simp add: CheckLockExpiry_def inv_tryGrantNext inv_remove_holder split: option.splits)

lemma queue_update_absorb:
  "(cleanupTicket a (updTicket a f (lm\<lparr>queue := q\<rparr>)))\<lparr>queue := q'\<rparr> =
     (cleanupTicket a (updTicket a f lm))\<lparr>queue := q'\<rparr>"
  "(cleanupTicket a (lm\<lparr>queue := q\<rparr>))\<lparr>queue := q'\<rparr> = (cleanupTicket a lm)\<lparr>queue := q'\<rparr>"
  by (simp_all add: cleanupTicket_def updTicket_def)

lemma updTicket_id: "updTicket a (\<lambda>t. t) lm = lm"
  by (simp add: updTicket_def)

lemma expireLoop_inv:
  "lm_inv (lm\<lparr>queue := nq @ as\<rparr>) \<Longrightarrow> expireLoop now ttl as (lm, ex, nq) = (lm', ex', nq') \<Longrightarrow>
     lm_inv (lm'\<lparr>queue := nq'\<rparr>)"
proof (induction as arbitrary: lm ex nq)
  case Nil
  then show ?case by simp
next
  case (Cons a as)
  show ?case
  proof (cases "IsTTLExpired now ttl (heap lm ! a)")
    case True
    have "lm_inv ((cleanupTicket a (updTicket a Expire (lm\<lparr>queue := nq @ a # as\<rparr>)))\<lparr>queue := nq @ as\<rparr>)"
      by (rule inv_remove_queued [OF Cons.prems(1)]) simp_all
    then have "lm_inv ((cleanupTicket a (updTicket a Expire lm))\<lparr>queue := nq @ as\<rparr>)"
      by (simp only: queue_update_absorb)
    then show ?thesis using Cons.IH Cons.prems(2) True by simp
  next
    case False
    then show ?thesis using Cons.IH [where nq = "nq @ [a]"] Cons.prems by simp
  qed
qed

lemma queue_update_self: "lm\<lparr>queue := queue lm\<rparr> = lm"
  by simp

lemma inv_ExpireWaitingTickets:
  assumes "lm_inv lm" shows "lm_inv (snd (ExpireWaitingTickets cfg now lm))"
proof -
  obtain lm1 ex nq where r: "expireLoop now (TicketTTL cfg * second) (queue lm) (lm, [], []) = (lm1, ex, nq)"
    by (metis prod_cases3)
  have "lm_inv (lm\<lparr>queue := [] @ queue lm\<rparr>)" using assms by simp
  from expireLoop_inv [OF this r] show ?thesis by (simp add: ExpireWaitingTickets_def r)
qed

lemma removeLoop_inv:
  "lm_inv (lm\<lparr>queue := nq @ as\<rparr>) \<Longrightarrow> removeLoop toolID as (lm, rm, nq) = (lm', rm', nq') \<Longrightarrow>
     lm_inv (lm'\<lparr>queue := nq'\<rparr>)"
proof (induction as arbitrary: lm rm nq)
  case Nil
  then show ?case by simp
next
  case (Cons a as)
  show ?case
  proof (cases "ToolID (heap lm ! a) = toolID")
    case True
    have "lm_inv ((cleanupTicket a (updTicket a (\<lambda>t. t) (lm\<lparr>queue := nq @ a # as\<rparr>)))\<lparr>queue := nq @ as\<rparr>)"
      by (rule inv_remove_queued [OF Cons.prems(1)]) simp_all
    then have "lm_inv ((cleanupTicket a lm)\<lparr>queue := nq @ as\<rparr>)"
      by (simp only: queue_update_absorb updTicket_id)
    then show ?thesis using Cons.IH Cons.prems(2) True by simp
  next
    case False
    then show ?thesis using Cons.IH [where nq = "nq @ [a]"] Cons.prems by simp
  qed
qed

lemma inv_removeHolder: "lm_inv lm \<Longrightarrow> lm_inv (fst (removeHolder toolID lm))"
proof -
  assume inv: "lm_inv lm"
  have "\<And>c. currentLock lm = Some c \<Longrightarrow> lm_inv ((cleanupTicket c lm)\<lparr>currentLock := None\<rparr>)"
  proof -
    fix c assume "currentLock lm = Some c"
    from inv_remove_holder [OF inv this, of "\<lambda>t. t"]
    have "lm_inv (cleanupTicket c (lm\<lparr>currentLock := None\<rparr>))" by (simp add: updTicket_id)
    moreover have "(cleanupTicket c lm)\<lparr>currentLock := None\<rparr> = cleanupTicket c (lm\<lparr>currentLock := None\<rparr>)"
      by (cases lm) (simp add: cleanupTicket_def)
    ultimately show "lm_inv ((cleanupTicket c lm)\<lparr>currentLock := None\<rparr>)"
      by (simp only:)
  qed
  then show ?thesis using inv by (auto simp: removeHolder_def split: option.splits)
qed

lemma inv_RemoveToolTickets:
  assumes "lm_inv lm" shows "lm_inv (snd (RemoveToolTickets cfg now toolID lm))"
proof -
  obtain lm0 rm0 where h: "removeHolder toolID lm = (lm0, rm0)" by (cases "removeHolder toolID lm")
  obtain lm1 rm nq where r: "removeLoop toolID (queue lm0) (lm0, rm0, []) = (lm1, rm, nq)"
    by (metis prod_cases3)
  have "lm_inv lm0" using inv_removeHolder [OF assms, of toolID] h by simp
  then have "lm_inv (lm0\<lparr>queue := [] @ queue lm0\<rparr>)" by simp
  from removeLoop_inv [OF this r] show ?thesis
    by (simp add: RemoveToolTickets_def h r inv_tryGrantNext)
qed

lemma inv_New: "lm_inv NewLockManager"
  by (simp add: lm_inv_def inv_order_def inv_status_def inv_ids_def inv_tickets_def inv_index_def
      inv_keys_def NewLockManager_def live_def holder_def)

lemma reach_inv: "reach lm \<Longrightarrow> lm_inv lm"
  by (induction rule: reach.induct)
    (simp_all add: inv_New inv_RequestLock inv_CheckLock inv_ReleaseLock inv_ExtendLock
      inv_ExpireCurrentLock inv_ExpireWaitingTickets inv_CheckGracePeriod inv_CheckLockExpiry
      inv_RemoveToolTickets)

lemma two_tools_online: "IsOnline two_tools ''T1''" "IsOnline two_tools ''T2''"
  by (simp_all add: two_tools_def Register_def NewToolRegistry_def IsOnline_def NewTool_def
      Tool_IsOnline_def)

lemma held_and_queued_eq:
  "held_and_queued =
     \<lparr>heap = [Grant 0 (20 * second) (NewTicket 0 ''u1'' ''T1'' ''th1''), NewTicket 1 ''u2'' ''T2'' ''th1''],
      queue = [1], currentLock = Some 0,
      tickets = [''u1'' \<mapsto> 0, ''u2'' \<mapsto> 1],
      threadKeys = [''T1:th1'' \<mapsto> ''u1'', ''T2:th1'' \<mapsto> ''u2'']\<rparr>"
  by (simp add: held_and_queued_def RequestLock_def two_tools_online existingTicket_def
      NewLockManager_def tryGrantNext_def updTicket_def Default_def Let_def)

lemma reach_held_and_queued: "reach held_and_queued"
  unfolding held_and_queued_def
  by (intro reach.intros)
    (simp_all add: RequestLock_def two_tools_online existingTicket_def NewLockManager_def
      tryGrantNext_def updTicket_def Let_def NewTicket_def Grant_def)

subsection \<open>Mutual exclusion\<close>

text \<open>
  Claim C1. In every state reached from the empty lock manager by RequestLock, CheckLock,
  ReleaseLock, ExtendLock, ExpireCurrentLock, ExpireWaitingTickets, CheckGracePeriod,
  CheckLockExpiry and RemoveToolTickets, at most one ticket that the manager refers to
  (through the queue, the holder slot or the ticket map) has status granted, and such a
  ticket is the one in the holder slot and is not in the queue. (A ticket object that
  RemoveToolTickets dropped keeps the status it had, but the manager no longer refers to
  it.)
\<close>

theorem mutual_exclusion:
  assumes "reach lm"
  shows "card {a. referenced lm a \<and> IsGranted (heap lm ! a)} \<le> 1 \<and>
         (\<forall>a. referenced lm a \<and> IsGranted (heap lm ! a) \<longrightarrow>
            currentLock lm = Some a \<and> a \<notin> set (queue lm))"
proof -
  have inv: "lm_inv lm" using assms by (rule reach_inv)
  have l: "\<And>a. referenced lm a \<Longrightarrow> a \<in> set (live lm)"
    using inv by (auto simp: referenced_def live_def holder_def lm_inv_def inv_tickets_def ran_def)
  have g: "\<And>a. referenced lm a \<Longrightarrow> IsGranted (heap lm ! a) \<Longrightarrow> currentLock lm = Some a \<and> a \<notin> set (queue lm)"
  proof -
    fix a assume r: "referenced lm a" and gr: "IsGranted (heap lm ! a)"
    from r have "a \<in> set (live lm)" by (rule l)
    moreover have "a \<notin> set (queue lm)"
      using inv gr by (auto simp: lm_inv_def inv_status_def IsGranted_def)
    ultimately show "currentLock lm = Some a \<and> a \<notin> set (queue lm)"
      by (auto simp: live_def holder_def split: option.splits)
  qed
  have "{a. referenced lm a \<and> IsGranted (heap lm ! a)} \<subseteq> set (holder lm)"
    using g by (auto simp: holder_def)
  then have "card {a. referenced lm a \<and> IsGranted (heap lm ! a)} \<le> card (set (holder lm))"
    by (intro card_mono) simp_all
  also have "\<dots> \<le> length (holder lm)" by (rule card_length)
  also have "\<dots> \<le> 1" by (simp add: holder_def split: option.splits)
  finally show ?thesis using g by blast
qed

theorem mutual_exclusion_witness:
  "reach held_and_queued \<and> currentLock held_and_queued = Some 0 \<and> queue held_and_queued = [1] \<and>
   referenced held_and_queued 0 \<and> IsGranted (heap held_and_queued ! 0) \<and>
   card {a. referenced held_and_queued a \<and> IsGranted (heap held_and_queued ! a)} \<le> 1"
proof -
  have c: "card {a. referenced held_and_queued a \<and> IsGranted (heap held_and_queued ! a)} \<le> 1"
    using mutual_exclusion [OF reach_held_and_queued] by (rule conjunct1)
  have "currentLock held_and_queued = Some 0" "queue held_and_queued = [1]"
    by (simp_all add: held_and_queued_eq)
  moreover from this have "referenced held_and_queued 0" by (simp add: referenced_def)
  moreover have "IsGranted (heap held_and_queued ! 0)"
    by (simp add: held_and_queued_eq IsGranted_def Grant_def)
  ultimately show ?thesis using c reach_held_and_queued by (intro conjI)
qed

subsection \<open>FIFO order\<close>






subsection \<open>Terminal tickets\<close>

lemma queueScan_found:
  "a \<in> set q \<Longrightarrow> i < queueScan h q (TicketID (h ! a)) i"
proof (induction q arbitrary: i)
  case Nil
  then show ?case by simp
next
  case (Cons b q)
  show ?case
  proof (cases "TicketID (h ! b) = TicketID (h ! a)")
    case True
    then show ?thesis by simp
  next
    case False
    then have "a \<in> set q" using Cons.prems by auto
    from Cons.IH [OF this, of "i + 1"] False show ?thesis by simp
  qed
qed

lemma getQueuePosition_live:
  assumes "a \<in> set (live lm)"
  shows "0 \<le> getQueuePosition lm (TicketID (heap lm ! a))"
proof (cases "currentLock lm = Some a")
  case True
  then show ?thesis by (simp add: getQueuePosition_def)
next
  case False
  then have "a \<in> set (queue lm)" using assms by (auto simp: live_def holder_def split: option.splits)
  from queueScan_found [OF this, of 0 "heap lm"] show ?thesis
    by (auto simp: getQueuePosition_def split: option.splits)
qed

lemma live_status:
  assumes "lm_inv lm" "a \<in> set (live lm)"
  shows "IsWaiting (heap lm ! a) \<or> IsGranted (heap lm ! a)"
  using assms
  by (auto simp: lm_inv_def inv_status_def live_def holder_def IsWaiting_def IsGranted_def
      split: option.splits)

lemma terminal_not_indexed:
  assumes inv: "lm_inv lm" and a: "a < length (heap lm)"
    and t: "IsReleased (heap lm ! a) \<or> IsExpired (heap lm ! a)"
  shows "tickets lm (TicketID (heap lm ! a)) = None"
proof (cases "tickets lm (TicketID (heap lm ! a))")
  case None
  then show ?thesis .
next
  case (Some b)
  then have b: "b \<in> set (live lm)" "TicketID (heap lm ! b) = TicketID (heap lm ! a)"
    using inv by (auto simp: lm_inv_def inv_tickets_def)
  have "distinct (map TicketID (heap lm))" using inv by (simp add: lm_inv_def inv_ids_def)
  moreover have "b < length (heap lm)" using inv b(1) by (rule inv_live_bound)
  ultimately have "b = a" using a b(2) by (metis distinct_conv_nth length_map nth_map)
  then have "IsWaiting (heap lm ! a) \<or> IsGranted (heap lm ! a)"
    using live_status [OF inv b(1)] by simp
  then show ?thesis using t
    by (auto simp: IsWaiting_def IsGranted_def IsReleased_def IsExpired_def)
qed

text \<open>
  Claim C10. In every reachable state, every ticket in the ticket map has status waiting
  or granted and is the holder or an element of the queue, so its position is never -1.
  A ticket with status released or expired is in neither the ticket map nor the
  thread-key map (the operation that made it terminal removed it), so CheckLock on its
  identifier returns the not-found error and changes nothing.
\<close>

theorem terminal_tickets_unreachable:
  assumes "reach lm"
  shows "(\<forall>i a. tickets lm i = Some a \<longrightarrow>
            (IsWaiting (heap lm ! a) \<or> IsGranted (heap lm ! a)) \<and>
            (currentLock lm = Some a \<or> a \<in> set (queue lm)) \<and>
            getQueuePosition lm i \<noteq> - 1) \<and>
         (\<forall>a cfg now. a < length (heap lm) \<and> (IsReleased (heap lm ! a) \<or> IsExpired (heap lm ! a)) \<longrightarrow>
            tickets lm (TicketID (heap lm ! a)) = None \<and>
            threadKeys lm (Key (heap lm ! a)) \<noteq> Some (TicketID (heap lm ! a)) \<and>
            CheckLock cfg now (TicketID (heap lm ! a)) lm = (Inl ErrTicketNotFound, lm))"
proof -
  have inv: "lm_inv lm" using assms by (rule reach_inv)
  have 1: "\<And>i a. tickets lm i = Some a \<Longrightarrow>
            (IsWaiting (heap lm ! a) \<or> IsGranted (heap lm ! a)) \<and>
            (currentLock lm = Some a \<or> a \<in> set (queue lm)) \<and>
            getQueuePosition lm i \<noteq> - 1"
  proof -
    fix i a assume "tickets lm i = Some a"
    then have a: "a \<in> set (live lm)" "TicketID (heap lm ! a) = i"
      using inv by (auto simp: lm_inv_def inv_tickets_def)
    have "currentLock lm = Some a \<or> a \<in> set (queue lm)"
      using a(1) by (auto simp: live_def holder_def split: option.splits)
    moreover have "0 \<le> getQueuePosition lm i" using getQueuePosition_live [OF a(1)] a(2) by simp
    ultimately show "(IsWaiting (heap lm ! a) \<or> IsGranted (heap lm ! a)) \<and>
            (currentLock lm = Some a \<or> a \<in> set (queue lm)) \<and>
            getQueuePosition lm i \<noteq> - 1"
      using live_status [OF inv a(1)] by auto
  qed
  have 2: "\<And>a cfg now. a < length (heap lm) \<Longrightarrow> IsReleased (heap lm ! a) \<or> IsExpired (heap lm ! a) \<Longrightarrow>
            tickets lm (TicketID (heap lm ! a)) = None \<and>
            threadKeys lm (Key (heap lm ! a)) \<noteq> Some (TicketID (heap lm ! a)) \<and>
            CheckLock cfg now (TicketID (heap lm ! a)) lm = (Inl ErrTicketNotFound, lm)"
  proof -
    fix a cfg now
    assume a: "a < length (heap lm)" and t: "IsReleased (heap lm ! a) \<or> IsExpired (heap lm ! a)"
    have n: "tickets lm (TicketID (heap lm ! a)) = None" using inv a t by (rule terminal_not_indexed)
    have "threadKeys lm (Key (heap lm ! a)) \<noteq> Some (TicketID (heap lm ! a))"
    proof
      assume "threadKeys lm (Key (heap lm ! a)) = Some (TicketID (heap lm ! a))"
      then obtain b where "tickets lm (TicketID (heap lm ! a)) = Some b"
        using inv by (auto simp: lm_inv_def inv_keys_def)
      then show False using n by simp
    qed
    then show "tickets lm (TicketID (heap lm ! a)) = None \<and>
            threadKeys lm (Key (heap lm ! a)) \<noteq> Some (TicketID (heap lm ! a)) \<and>
            CheckLock cfg now (TicketID (heap lm ! a)) lm = (Inl ErrTicketNotFound, lm)"
      using n by (simp add: CheckLock_def)
  qed
  show ?thesis using 1 2 by blast
qed

lemma released_then_granted_eq:
  "released_then_granted =
     \<lparr>heap = [Release (Grant 0 (20 * second) (NewTicket 0 ''u1'' ''T1'' ''th1'')),
              Grant 2 (20 * second) (NewTicket 1 ''u2'' ''T2'' ''th1'')],
      queue = [], currentLock = Some 1,
      tickets = [''u2'' \<mapsto> 1],
      threadKeys = [''T2:th1'' \<mapsto> ''u2'']\<rparr>"
  by (simp add: released_then_granted_def held_and_queued_eq ReleaseLock_def notHolder_def
      tryGrantNext_def updTicket_def cleanupTicket_def Default_def Key_def fun_upd_twist)

lemma reach_released_then_granted: "reach released_then_granted"
  unfolding released_then_granted_def by (rule reach_ReleaseLock [OF reach_held_and_queued])

theorem terminal_tickets_unreachable_witness:
  "reach released_then_granted \<and> (0::nat) < length (heap released_then_granted) \<and>
   IsReleased (heap released_then_granted ! 0) \<and>
   TicketID (heap released_then_granted ! 0) = ''u1'' \<and>
   CheckLock Default 3 ''u1'' released_then_granted = (Inl ErrTicketNotFound, released_then_granted) \<and>
   tickets released_then_granted ''u2'' = Some 1 \<and>
   getQueuePosition released_then_granted ''u2'' \<noteq> - 1"
proof -
  have a: "(0::nat) < length (heap released_then_granted)"
    "IsReleased (heap released_then_granted ! 0)"
    "TicketID (heap released_then_granted ! 0) = ''u1''"
    "tickets released_then_granted ''u2'' = Some 1"
    by (simp_all add: released_then_granted_eq IsReleased_def Release_def Grant_def NewTicket_def)
  from terminal_tickets_unreachable [OF reach_released_then_granted]
  have "CheckLock Default 3 (TicketID (heap released_then_granted ! 0)) released_then_granted =
          (Inl ErrTicketNotFound, released_then_granted)"
    and "getQueuePosition released_then_granted ''u2'' \<noteq> - 1"
    using a by blast+
  then show ?thesis using a reach_released_then_granted by simp
qed

subsection \<open>Idempotence of RequestLock\<close>



lemma Status_after_Grant:
  "n < length h \<Longrightarrow>
     Status (h[b := Grant now d (h ! b)] ! n) = (if b = n then TicketStatusGranted else Status (h ! n))"
  by (simp add: nth_list_update)





subsection \<open>ExtendLock\<close>

lemma ExtendLock_holder:
  assumes "lm_inv lm" "LockExtendable cfg" "tickets lm i = Some a" "currentLock lm = Some a"
  shows "ExtendLock cfg now i lm =
           (if LockExtendMax cfg \<le> ExtendCount (heap lm ! a) then (Inl ErrMaxExtendReached, lm)
            else (Inr a, updTicket a (Extend now (LockMaxDuration cfg * second)) lm))"
  using assms by (simp add: ExtendLock_def holder_lookup)

lemma ExtendLock_not_holder:
  assumes "lm_inv lm" "LockExtendable cfg" "tickets lm i = Some a" "currentLock lm \<noteq> Some a"
  shows "ExtendLock cfg now i lm = (Inl ErrNotLockHolder, lm)"
  using assms by (simp add: ExtendLock_def holder_lookup)

lemma ExtendLock_failure_unchanged: "ExtendLock cfg now i lm = (Inl e, lm') \<Longrightarrow> lm' = lm"
  by (auto simp: ExtendLock_def split: if_splits option.splits)

lemma holder_bound: "lm_inv lm \<Longrightarrow> currentLock lm = Some a \<Longrightarrow> a < length (heap lm)"
  by (rule inv_live_bound) (simp_all add: live_simps)

lemma Extend_fields [simp]:
  "ExpiresAt (Extend now d t) = now + d" "ExtendCount (Extend now d t) = ExtendCount t + 1"
  "GrantedAt (Extend now d t) = GrantedAt t"
  by (simp_all add: Extend_def)

lemma ExtendLock_run_holder:
  assumes "lm_inv lm" "LockExtendable cfg" "tickets lm i = Some a" "currentLock lm = Some a"
    "ExtendCount (heap lm ! a) + int (length ts) \<le> LockExtendMax cfg"
  shows "fst (ExtendLock_run cfg i ts lm) = replicate (length ts) (Inr a) \<and>
         lm_inv (snd (ExtendLock_run cfg i ts lm)) \<and>
         tickets (snd (ExtendLock_run cfg i ts lm)) i = Some a \<and>
         currentLock (snd (ExtendLock_run cfg i ts lm)) = Some a \<and>
         ExtendCount (heap (snd (ExtendLock_run cfg i ts lm)) ! a) =
           ExtendCount (heap lm ! a) + int (length ts)"
  using assms
proof (induction ts arbitrary: lm)
  case Nil
  then show ?case by simp
next
  case (Cons t ts)
  let ?lm1 = "updTicket a (Extend t (LockMaxDuration cfg * second)) lm"
  have b: "a < length (heap lm)" using Cons.prems(1,4) by (rule holder_bound)
  have e: "ExtendLock cfg t i lm = (Inr a, ?lm1)"
    using ExtendLock_holder [OF Cons.prems(1-4)] Cons.prems(5) by simp
  have inv1: "lm_inv ?lm1" using inv_ExtendLock [OF Cons.prems(1), of cfg t i] e by simp
  have c1: "ExtendCount (heap ?lm1 ! a) = ExtendCount (heap lm ! a) + 1" using b by simp
  have "ExtendCount (heap ?lm1 ! a) + int (length ts) \<le> LockExtendMax cfg"
    using c1 Cons.prems(5) by simp
  from Cons.IH [OF inv1 Cons.prems(2) _ _ this] Cons.prems(3,4) c1 e
  show ?case by (simp add: split_beta)
qed

text \<open>
  Claim C6. ExtendLock fails with ErrExtendDisabled for every ticket identifier when
  lock\_extendable is off; otherwise with ErrTicketNotFound when the identifier is not in
  the ticket map, with ErrNotLockHolder when the ticket is not the holder, and with
  ErrMaxExtendReached when the holder's extend count has reached lock\_extend\_max;
  otherwise it succeeds and adds one to the extend count. Every failure leaves the state
  as it was. A ticket has extend count 0 when it is granted, so lock\_extend\_max
  extensions succeed and the next one fails with ErrMaxExtendReached.
\<close>

theorem ExtendLock_errors:
  assumes "reach lm"
  shows "(\<not> LockExtendable cfg \<longrightarrow> ExtendLock cfg now i lm = (Inl ErrExtendDisabled, lm)) \<and>
         (LockExtendable cfg \<and> tickets lm i = None \<longrightarrow>
            ExtendLock cfg now i lm = (Inl ErrTicketNotFound, lm)) \<and>
         (\<forall>a. LockExtendable cfg \<and> tickets lm i = Some a \<and> currentLock lm \<noteq> Some a \<longrightarrow>
            ExtendLock cfg now i lm = (Inl ErrNotLockHolder, lm)) \<and>
         (\<forall>a. LockExtendable cfg \<and> tickets lm i = Some a \<and> currentLock lm = Some a \<and>
              LockExtendMax cfg \<le> ExtendCount (heap lm ! a) \<longrightarrow>
            ExtendLock cfg now i lm = (Inl ErrMaxExtendReached, lm)) \<and>
         (\<forall>a. LockExtendable cfg \<and> tickets lm i = Some a \<and> currentLock lm = Some a \<and>
              ExtendCount (heap lm ! a) < LockExtendMax cfg \<longrightarrow>
            fst (ExtendLock cfg now i lm) = Inr a \<and>
            ExtendCount (heap (snd (ExtendLock cfg now i lm)) ! a) = ExtendCount (heap lm ! a) + 1) \<and>
         (\<forall>e lm'. ExtendLock cfg now i lm = (Inl e, lm') \<longrightarrow> lm' = lm) \<and>
         (\<forall>a \<in> set (queue lm). ExtendCount (heap lm ! a) = 0) \<and>
         (\<forall>a. currentLock (tryGrantNext cfg now lm) = Some a \<and> currentLock lm \<noteq> Some a \<longrightarrow>
            ExtendCount (heap (tryGrantNext cfg now lm) ! a) = 0) \<and>
         (\<forall>a ts. LockExtendable cfg \<and> tickets lm i = Some a \<and> currentLock lm = Some a \<and>
              ExtendCount (heap lm ! a) = 0 \<and> int (length ts) = LockExtendMax cfg \<longrightarrow>
            fst (ExtendLock_run cfg i ts lm) = replicate (length ts) (Inr a) \<and>
            fst (ExtendLock cfg now i (snd (ExtendLock_run cfg i ts lm))) = Inl ErrMaxExtendReached)"
proof -
  have inv: "lm_inv lm" using assms by (rule reach_inv)
  have 1: "\<not> LockExtendable cfg \<longrightarrow> ExtendLock cfg now i lm = (Inl ErrExtendDisabled, lm)"
    by (simp add: ExtendLock_def)
  have 2: "LockExtendable cfg \<and> tickets lm i = None \<longrightarrow>
            ExtendLock cfg now i lm = (Inl ErrTicketNotFound, lm)"
    by (simp add: ExtendLock_def)
  have 3: "\<forall>a. LockExtendable cfg \<and> tickets lm i = Some a \<and> currentLock lm \<noteq> Some a \<longrightarrow>
            ExtendLock cfg now i lm = (Inl ErrNotLockHolder, lm)"
    using ExtendLock_not_holder [OF inv] by blast
  have 4: "\<forall>a. LockExtendable cfg \<and> tickets lm i = Some a \<and> currentLock lm = Some a \<and>
              LockExtendMax cfg \<le> ExtendCount (heap lm ! a) \<longrightarrow>
            ExtendLock cfg now i lm = (Inl ErrMaxExtendReached, lm)"
    using ExtendLock_holder [OF inv] by simp
  have 5: "\<forall>a. LockExtendable cfg \<and> tickets lm i = Some a \<and> currentLock lm = Some a \<and>
              ExtendCount (heap lm ! a) < LockExtendMax cfg \<longrightarrow>
            fst (ExtendLock cfg now i lm) = Inr a \<and>
            ExtendCount (heap (snd (ExtendLock cfg now i lm)) ! a) = ExtendCount (heap lm ! a) + 1"
    using ExtendLock_holder [OF inv] holder_bound [OF inv] by simp
  have 6: "\<forall>e lm'. ExtendLock cfg now i lm = (Inl e, lm') \<longrightarrow> lm' = lm"
    using ExtendLock_failure_unchanged by blast
  have 7: "\<forall>a \<in> set (queue lm). ExtendCount (heap lm ! a) = 0"
    using inv by (simp add: lm_inv_def inv_status_def)
  have 8: "\<forall>a. currentLock (tryGrantNext cfg now lm) = Some a \<and> currentLock lm \<noteq> Some a \<longrightarrow>
            ExtendCount (heap (tryGrantNext cfg now lm) ! a) = 0"
  proof (intro allI impI)
    fix a assume a: "currentLock (tryGrantNext cfg now lm) = Some a \<and> currentLock lm \<noteq> Some a"
    then have q: "currentLock lm = None" "queue lm \<noteq> []" "a = hd (queue lm)"
      by (auto simp: tryGrantNext_cases split: if_splits)
    then have "a \<in> set (live lm)" by (simp add: live_simps)
    then have "a < length (heap lm)" using inv inv_live_bound by blast
    then show "ExtendCount (heap (tryGrantNext cfg now lm) ! a) = 0"
      using q 7 by (simp add: tryGrantNext_cases)
  qed
  have 9: "\<forall>a ts. LockExtendable cfg \<and> tickets lm i = Some a \<and> currentLock lm = Some a \<and>
              ExtendCount (heap lm ! a) = 0 \<and> int (length ts) = LockExtendMax cfg \<longrightarrow>
            fst (ExtendLock_run cfg i ts lm) = replicate (length ts) (Inr a) \<and>
            fst (ExtendLock cfg now i (snd (ExtendLock_run cfg i ts lm))) = Inl ErrMaxExtendReached"
  proof (intro allI impI)
    fix a and ts :: "int list"
    assume h: "LockExtendable cfg \<and> tickets lm i = Some a \<and> currentLock lm = Some a \<and>
              ExtendCount (heap lm ! a) = 0 \<and> int (length ts) = LockExtendMax cfg"
    then have "ExtendCount (heap lm ! a) + int (length ts) \<le> LockExtendMax cfg" by simp
    from ExtendLock_run_holder [OF inv _ _ _ this] h
    have r: "fst (ExtendLock_run cfg i ts lm) = replicate (length ts) (Inr a)"
      "lm_inv (snd (ExtendLock_run cfg i ts lm))"
      "tickets (snd (ExtendLock_run cfg i ts lm)) i = Some a"
      "currentLock (snd (ExtendLock_run cfg i ts lm)) = Some a"
      "ExtendCount (heap (snd (ExtendLock_run cfg i ts lm)) ! a) = LockExtendMax cfg"
      by simp_all
    from ExtendLock_holder [OF r(2) _ r(3,4), of cfg now] h r(5) r(1)
    show "fst (ExtendLock_run cfg i ts lm) = replicate (length ts) (Inr a) \<and>
            fst (ExtendLock cfg now i (snd (ExtendLock_run cfg i ts lm))) = Inl ErrMaxExtendReached"
      by simp
  qed
  show ?thesis using 1 2 3 4 5 6 7 8 9 by (intro conjI)
qed

lemma just_granted_eq:
  "just_granted =
     \<lparr>heap = [Grant 0 (20 * second) (NewTicket 0 ''u1'' ''T1'' ''th1'')],
      queue = [], currentLock = Some 0,
      tickets = [''u1'' \<mapsto> 0], threadKeys = [''T1:th1'' \<mapsto> ''u1'']\<rparr>"
  by (simp add: just_granted_def RequestLock_def two_tools_online existingTicket_def
      NewLockManager_def tryGrantNext_def updTicket_def Default_def Let_def)

lemma reach_just_granted: "reach just_granted"
  unfolding just_granted_def
  by (intro reach.intros) (simp_all add: NewLockManager_def)

lemma just_granted_facts:
  "LockExtendable Default" "LockExtendMax Default = 2" "LockMaxDuration Default = 20"
  "tickets just_granted ''u1'' = Some 0" "currentLock just_granted = Some 0"
  "ExtendCount (heap just_granted ! 0) = 0" "ExpiresAt (heap just_granted ! 0) = 20 * second"
  by (simp_all add: Default_def just_granted_eq Grant_def NewTicket_def)

theorem ExtendLock_errors_witness:
  "reach just_granted \<and> LockExtendable Default \<and> tickets just_granted ''u1'' = Some 0 \<and>
   currentLock just_granted = Some 0 \<and> ExtendCount (heap just_granted ! 0) = 0 \<and>
   int (length [1 * second, 2 * second]) = LockExtendMax Default \<and>
   fst (ExtendLock_run Default ''u1'' [1 * second, 2 * second] just_granted) = [Inr 0, Inr 0] \<and>
   fst (ExtendLock Default (3 * second) ''u1''
          (snd (ExtendLock_run Default ''u1'' [1 * second, 2 * second] just_granted))) =
     Inl ErrMaxExtendReached"
proof -
  have l: "int (length [1 * second, 2 * second]) = LockExtendMax Default"
    by (simp add: just_granted_facts)
  from ExtendLock_errors [OF reach_just_granted, of Default "3 * second" "''u1''"]
  have "\<forall>a ts. LockExtendable Default \<and> tickets just_granted ''u1'' = Some a \<and>
          currentLock just_granted = Some a \<and> ExtendCount (heap just_granted ! a) = 0 \<and>
          int (length ts) = LockExtendMax Default \<longrightarrow>
          fst (ExtendLock_run Default ''u1'' ts just_granted) = replicate (length ts) (Inr a) \<and>
          fst (ExtendLock Default (3 * second) ''u1'' (snd (ExtendLock_run Default ''u1'' ts just_granted))) =
            Inl ErrMaxExtendReached"
    by blast
  from this [rule_format, of 0 "[1 * second, 2 * second]"] l just_granted_facts
  have "fst (ExtendLock_run Default ''u1'' [1 * second, 2 * second] just_granted) =
          replicate (length [1 * second, 2 * second]) (Inr 0) \<and>
        fst (ExtendLock Default (3 * second) ''u1''
          (snd (ExtendLock_run Default ''u1'' [1 * second, 2 * second] just_granted))) =
          Inl ErrMaxExtendReached"
    by blast
  then show ?thesis using l just_granted_facts reach_just_granted
    by (simp add: numeral_2_eq_2)
qed

subsection \<open>What an extension does to the expiry time\<close>






subsection \<open>ReleaseLock\<close>

lemma ReleaseLock_failure_unchanged: "ReleaseLock cfg now i lm = (Inl e, lm') \<Longrightarrow> lm' = lm"
  by (auto simp: ReleaseLock_def split: if_splits option.splits)

lemma ReleaseLock_holder:
  assumes inv: "lm_inv lm" and t: "tickets lm i = Some a" and c: "currentLock lm = Some a"
  defines "lm0 \<equiv> cleanupTicket a ((updTicket a Release lm)\<lparr>currentLock := None\<rparr>)"
  shows "ReleaseLock cfg now i lm = (Inr a, tryGrantNext cfg now lm0)"
    and "currentLock lm0 = None" and "queue lm0 = queue lm"
    and "Status (heap lm0 ! a) = TicketStatusReleased"
    and "tickets lm0 i = None" and "threadKeys lm0 (Key (heap lm ! a)) = None"
    and "Status (heap (tryGrantNext cfg now lm0) ! a) = TicketStatusReleased"
    and "tickets (tryGrantNext cfg now lm0) i = None"
    and "threadKeys (tryGrantNext cfg now lm0) (Key (heap lm ! a)) = None"
    and "queue lm = [] \<Longrightarrow> currentLock (tryGrantNext cfg now lm0) = None \<and> queue (tryGrantNext cfg now lm0) = []"
    and "queue lm = b # rest \<Longrightarrow>
           currentLock (tryGrantNext cfg now lm0) = Some b \<and> queue (tryGrantNext cfg now lm0) = rest \<and>
           Status (heap (tryGrantNext cfg now lm0) ! b) = TicketStatusGranted"
proof -
  have b: "a < length (heap lm)" using inv c by (rule holder_bound)
  have id: "TicketID (heap lm ! a) = i" using inv t by (simp add: lm_inv_def inv_tickets_def)
  show "ReleaseLock cfg now i lm = (Inr a, tryGrantNext cfg now lm0)"
    using t c holder_lookup [OF inv t] by (simp add: ReleaseLock_def lm0_def)
  show c0: "currentLock lm0 = None" and q0: "queue lm0 = queue lm" by (simp_all add: lm0_def)
  show s0: "Status (heap lm0 ! a) = TicketStatusReleased" using b by (simp add: lm0_def)
  show t0: "tickets lm0 i = None" using id by (simp add: lm0_def nth_upd_TicketID)
  show k0: "threadKeys lm0 (Key (heap lm ! a)) = None" by (simp add: lm0_def nth_upd_Key)
  have la: "length (heap lm0) = length (heap lm)" by (simp add: lm0_def)
  have nq: "a \<notin> set (queue lm)"
    using inv_live_distinct [OF inv] c by (simp add: live_simps)
  show "tickets (tryGrantNext cfg now lm0) i = None" using t0 by (simp add: tryGrantNext_cases)
  show "threadKeys (tryGrantNext cfg now lm0) (Key (heap lm ! a)) = None"
    using k0 by (simp add: tryGrantNext_cases)
  show "Status (heap (tryGrantNext cfg now lm0) ! a) = TicketStatusReleased"
  proof (cases "queue lm")
    case Nil
    then show ?thesis using s0 q0 by (simp add: tryGrantNext_cases)
  next
    case (Cons b' rest')
    then have "b' \<noteq> a" using nq by auto
    then show ?thesis using s0 q0 c0 Cons b la by (simp add: tryGrantNext_cases Status_after_Grant)
  qed
  show "queue lm = [] \<Longrightarrow> currentLock (tryGrantNext cfg now lm0) = None \<and> queue (tryGrantNext cfg now lm0) = []"
    using c0 q0 by (simp add: tryGrantNext_cases)
  show "queue lm = b # rest \<Longrightarrow>
           currentLock (tryGrantNext cfg now lm0) = Some b \<and> queue (tryGrantNext cfg now lm0) = rest \<and>
           Status (heap (tryGrantNext cfg now lm0) ! b) = TicketStatusGranted"
  proof -
    assume q: "queue lm = b # rest"
    then have "b \<in> set (live lm)" by (simp add: live_def)
    then have "b < length (heap lm0)" using inv_live_bound [OF inv] la by simp
    then show ?thesis using q c0 q0 by (simp add: tryGrantNext_cases Status_after_Grant)
  qed
qed

text \<open>
  Claim C7. ReleaseLock fails with ErrTicketNotFound when the identifier is not in the
  ticket map and with ErrNotLockHolder when the ticket is in the map but is not the
  holder; every failure leaves the state as it was. Called for the holder it succeeds:
  the ticket gets status released, the holder slot is cleared and the ticket leaves the
  ticket map and the thread-key map, and then the grant step runs on that state, so that
  the head of the queue, if there is one, becomes the new holder with status granted.
\<close>

theorem ReleaseLock_semantics:
  assumes "reach lm"
  shows "(tickets lm i = None \<longrightarrow> ReleaseLock cfg now i lm = (Inl ErrTicketNotFound, lm)) \<and>
         (\<forall>a. tickets lm i = Some a \<and> currentLock lm \<noteq> Some a \<longrightarrow>
            ReleaseLock cfg now i lm = (Inl ErrNotLockHolder, lm)) \<and>
         (\<forall>e lm'. ReleaseLock cfg now i lm = (Inl e, lm') \<longrightarrow> lm' = lm) \<and>
         (\<forall>a. tickets lm i = Some a \<and> currentLock lm = Some a \<longrightarrow>
            (\<exists>lm0. ReleaseLock cfg now i lm = (Inr a, tryGrantNext cfg now lm0) \<and>
               currentLock lm0 = None \<and> queue lm0 = queue lm \<and>
               Status (heap lm0 ! a) = TicketStatusReleased \<and>
               tickets lm0 i = None \<and> threadKeys lm0 (Key (heap lm ! a)) = None) \<and>
            Status (heap (snd (ReleaseLock cfg now i lm)) ! a) = TicketStatusReleased \<and>
            tickets (snd (ReleaseLock cfg now i lm)) i = None \<and>
            threadKeys (snd (ReleaseLock cfg now i lm)) (Key (heap lm ! a)) = None \<and>
            (case queue lm of
               [] \<Rightarrow> currentLock (snd (ReleaseLock cfg now i lm)) = None \<and>
                     queue (snd (ReleaseLock cfg now i lm)) = []
             | b # rest \<Rightarrow>
                 currentLock (snd (ReleaseLock cfg now i lm)) = Some b \<and>
                 queue (snd (ReleaseLock cfg now i lm)) = rest \<and>
                 Status (heap (snd (ReleaseLock cfg now i lm)) ! b) = TicketStatusGranted))"
proof -
  have inv: "lm_inv lm" using assms by (rule reach_inv)
  have 1: "tickets lm i = None \<longrightarrow> ReleaseLock cfg now i lm = (Inl ErrTicketNotFound, lm)"
    by (simp add: ReleaseLock_def)
  have 2: "\<forall>a. tickets lm i = Some a \<and> currentLock lm \<noteq> Some a \<longrightarrow>
            ReleaseLock cfg now i lm = (Inl ErrNotLockHolder, lm)"
    using holder_lookup [OF inv] by (simp add: ReleaseLock_def)
  have 3: "\<forall>e lm'. ReleaseLock cfg now i lm = (Inl e, lm') \<longrightarrow> lm' = lm"
    using ReleaseLock_failure_unchanged by blast
  have 4: "\<forall>a. tickets lm i = Some a \<and> currentLock lm = Some a \<longrightarrow>
            (\<exists>lm0. ReleaseLock cfg now i lm = (Inr a, tryGrantNext cfg now lm0) \<and>
               currentLock lm0 = None \<and> queue lm0 = queue lm \<and>
               Status (heap lm0 ! a) = TicketStatusReleased \<and>
               tickets lm0 i = None \<and> threadKeys lm0 (Key (heap lm ! a)) = None) \<and>
            Status (heap (snd (ReleaseLock cfg now i lm)) ! a) = TicketStatusReleased \<and>
            tickets (snd (ReleaseLock cfg now i lm)) i = None \<and>
            threadKeys (snd (ReleaseLock cfg now i lm)) (Key (heap lm ! a)) = None \<and>
            (case queue lm of
               [] \<Rightarrow> currentLock (snd (ReleaseLock cfg now i lm)) = None \<and>
                     queue (snd (ReleaseLock cfg now i lm)) = []
             | b # rest \<Rightarrow>
                 currentLock (snd (ReleaseLock cfg now i lm)) = Some b \<and>
                 queue (snd (ReleaseLock cfg now i lm)) = rest \<and>
                 Status (heap (snd (ReleaseLock cfg now i lm)) ! b) = TicketStatusGranted)"
  proof (intro allI impI)
    fix a assume h: "tickets lm i = Some a \<and> currentLock lm = Some a"
    then have t: "tickets lm i = Some a" and c: "currentLock lm = Some a" by simp_all
    note R = ReleaseLock_holder [OF inv t c]
    have ex: "\<exists>lm0. ReleaseLock cfg now i lm = (Inr a, tryGrantNext cfg now lm0) \<and>
               currentLock lm0 = None \<and> queue lm0 = queue lm \<and>
               Status (heap lm0 ! a) = TicketStatusReleased \<and>
               tickets lm0 i = None \<and> threadKeys lm0 (Key (heap lm ! a)) = None"
      using R(1-6) by blast
    have q: "(case queue lm of
               [] \<Rightarrow> currentLock (snd (ReleaseLock cfg now i lm)) = None \<and>
                     queue (snd (ReleaseLock cfg now i lm)) = []
             | b # rest \<Rightarrow>
                 currentLock (snd (ReleaseLock cfg now i lm)) = Some b \<and>
                 queue (snd (ReleaseLock cfg now i lm)) = rest \<and>
                 Status (heap (snd (ReleaseLock cfg now i lm)) ! b) = TicketStatusGranted)"
      using R(10,11) by (simp add: R(1) split: list.splits)
    show "(\<exists>lm0. ReleaseLock cfg now i lm = (Inr a, tryGrantNext cfg now lm0) \<and>
               currentLock lm0 = None \<and> queue lm0 = queue lm \<and>
               Status (heap lm0 ! a) = TicketStatusReleased \<and>
               tickets lm0 i = None \<and> threadKeys lm0 (Key (heap lm ! a)) = None) \<and>
            Status (heap (snd (ReleaseLock cfg now i lm)) ! a) = TicketStatusReleased \<and>
            tickets (snd (ReleaseLock cfg now i lm)) i = None \<and>
            threadKeys (snd (ReleaseLock cfg now i lm)) (Key (heap lm ! a)) = None \<and>
            (case queue lm of
               [] \<Rightarrow> currentLock (snd (ReleaseLock cfg now i lm)) = None \<and>
                     queue (snd (ReleaseLock cfg now i lm)) = []
             | b # rest \<Rightarrow>
                 currentLock (snd (ReleaseLock cfg now i lm)) = Some b \<and>
                 queue (snd (ReleaseLock cfg now i lm)) = rest \<and>
                 Status (heap (snd (ReleaseLock cfg now i lm)) ! b) = TicketStatusGranted)"
      using ex q R(7,8,9) by (simp only: R(1) snd_conv simp_thms)
  qed
  show ?thesis using 1 2 3 4 by (intro conjI)
qed

theorem ReleaseLock_semantics_witness:
  "reach held_and_queued \<and> tickets held_and_queued ''u1'' = Some 0 \<and>
   currentLock held_and_queued = Some 0 \<and> queue held_and_queued = [1] \<and>
   Status (heap (snd (ReleaseLock Default 2 ''u1'' held_and_queued)) ! 0) = TicketStatusReleased \<and>
   tickets (snd (ReleaseLock Default 2 ''u1'' held_and_queued)) ''u1'' = None \<and>
   currentLock (snd (ReleaseLock Default 2 ''u1'' held_and_queued)) = Some 1 \<and>
   tickets held_and_queued ''u2'' = Some 1 \<and>
   ReleaseLock Default 2 ''u2'' held_and_queued = (Inl ErrNotLockHolder, held_and_queued) \<and>
   tickets held_and_queued ''u9'' = None \<and>
   ReleaseLock Default 2 ''u9'' held_and_queued = (Inl ErrTicketNotFound, held_and_queued)"
proof -
  have f: "tickets held_and_queued ''u1'' = Some 0" "currentLock held_and_queued = Some 0"
    "queue held_and_queued = [1]" "tickets held_and_queued ''u2'' = Some 1"
    "tickets held_and_queued ''u9'' = None" "currentLock held_and_queued \<noteq> Some 1"
    by (simp_all add: held_and_queued_eq)
  note T = ReleaseLock_semantics [OF reach_held_and_queued]
  have a: "Status (heap (snd (ReleaseLock Default 2 ''u1'' held_and_queued)) ! 0) = TicketStatusReleased \<and>
      tickets (snd (ReleaseLock Default 2 ''u1'' held_and_queued)) ''u1'' = None \<and>
      currentLock (snd (ReleaseLock Default 2 ''u1'' held_and_queued)) = Some 1"
    using T [of "''u1''" Default 2] f(1,2,3) by simp
  have b: "ReleaseLock Default 2 ''u2'' held_and_queued = (Inl ErrNotLockHolder, held_and_queued)"
    using T [of "''u2''" Default 2] f(4,6) by blast
  have c: "ReleaseLock Default 2 ''u9'' held_and_queued = (Inl ErrTicketNotFound, held_and_queued)"
    using T [of "''u9''" Default 2] f(5) by blast
  show ?thesis using a b c f(1-5) reach_held_and_queued by (intro conjI) simp_all
qed

subsection \<open>The sweep of waiting tickets\<close>

lemma expireOne_simps [simp]:
  "heap (expireOne a lm) = (heap lm)[a := Expire (heap lm ! a)]"
  "queue (expireOne a lm) = queue lm"
  "currentLock (expireOne a lm) = currentLock lm"
  "tickets (expireOne a lm) = (tickets lm)(TicketID (heap lm ! a) := None)"
  "threadKeys (expireOne a lm) = (threadKeys lm)(Key (heap lm ! a) := None)"
  by (simp_all add: expireOne_def nth_upd_TicketID nth_upd_Key)











subsection \<open>Grants and the liveness of tools\<close>

text \<open>
  Claim C2 (grants only go to online tools; the tickets of a tool that goes offline,
  also by Unregister, are removed). The code at a failing input: tools T1 and T2 are
  registered, T1 holds the lock and T2 waits. T2 unregisters: the registry marks it
  offline, and its ticket stays in the queue. T1 releases: the grant step grants the
  lock to the ticket of T2, which is offline at that moment.
\<close>

theorem grant_to_unregistered_tool:
  "fst (unregisterTool ''T2'' (two_tools, held_and_queued)) = Inr (MarkOffline (NewTool 0 ''T2'')) \<and>
   \<not> IsOnline (fst (snd (unregisterTool ''T2'' (two_tools, held_and_queued)))) ''T2'' \<and>
   snd (snd (unregisterTool ''T2'' (two_tools, held_and_queued))) = held_and_queued \<and>
   queue held_and_queued = [1] \<and> ToolID (heap held_and_queued ! 1) = ''T2'' \<and>
   fst (ReleaseLock Default 2 ''u1'' held_and_queued) = Inr 0 \<and>
   currentLock (snd (ReleaseLock Default 2 ''u1'' held_and_queued)) = Some 1 \<and>
   ToolID (heap (snd (ReleaseLock Default 2 ''u1'' held_and_queued)) ! 1) = ''T2'' \<and>
   Status (heap (snd (ReleaseLock Default 2 ''u1'' held_and_queued)) ! 1) = TicketStatusGranted"
proof -
  have u: "Unregister ''T2'' two_tools =
      (Inr (MarkOffline (NewTool 0 ''T2'')),
       \<lparr>tools = [''T1'' \<mapsto> NewTool 0 ''T1'', ''T2'' \<mapsto> MarkOffline (NewTool 0 ''T2'')]\<rparr>)"
    by (simp add: Unregister_def two_tools_def Register_def NewToolRegistry_def)
  have r: "snd (ReleaseLock Default 2 ''u1'' held_and_queued) = released_then_granted"
    by (simp add: released_then_granted_def)
  have f: "fst (ReleaseLock Default 2 ''u1'' held_and_queued) = Inr 0"
    by (simp add: held_and_queued_eq ReleaseLock_def notHolder_def Grant_def NewTicket_def)
  have a: "fst (unregisterTool ''T2'' (two_tools, held_and_queued)) = Inr (MarkOffline (NewTool 0 ''T2''))"
    "\<not> IsOnline (fst (snd (unregisterTool ''T2'' (two_tools, held_and_queued)))) ''T2''"
    "snd (snd (unregisterTool ''T2'' (two_tools, held_and_queued))) = held_and_queued"
    by (simp_all add: unregisterTool_def u IsOnline_def Tool_IsOnline_def MarkOffline_def NewTool_def)
  have b: "queue held_and_queued = [1]" "ToolID (heap held_and_queued ! 1) = ''T2''"
    by (simp_all add: held_and_queued_eq)
  have c: "currentLock released_then_granted = Some 1"
    "ToolID (heap released_then_granted ! 1) = ''T2''"
    "Status (heap released_then_granted ! 1) = TicketStatusGranted"
    by (simp_all add: released_then_granted_eq)
  show ?thesis unfolding r by (intro conjI a b c f)
qed

subsection \<open>Per-minute metrics\<close>

lemma updateMax_counters [simp]:
  "locksGranted (updateMaxWaitTime ms el) = locksGranted el"
  "expiredTickets (updateMaxWaitTime ms el) = expiredTickets el"
  "failedRequests (updateMaxWaitTime ms el) = failedRequests el"
  "locksGranted (updateMaxHoldTime ms el) = locksGranted el"
  "expiredTickets (updateMaxHoldTime ms el) = expiredTickets el"
  "failedRequests (updateMaxHoldTime ms el) = failedRequests el"
  "locksGranted (updateMaxQueueLength len el) = locksGranted el"
  "expiredTickets (updateMaxQueueLength len el) = expiredTickets el"
  "failedRequests (updateMaxQueueLength len el) = failedRequests el"
  by (simp_all add: updateMaxWaitTime_def updateMaxHoldTime_def updateMaxQueueLength_def)

lemma logger_step_granted:
  "sum_list (map LocksGrantedLastMin (fst (logger_step c el))) + locksGranted (snd (logger_step c el)) =
     locksGranted el + (if is_granted c then 1 else 0)"
  by (cases c)
    (simp_all add: LogLockRequested_def LogLockGranted_def LogLockReleased_def LogLockExpired_def
      LogLockExtended_def LogTicketExpired_def IncrementErrors_def GetMinuteMetrics_def Let_def)

lemma logger_step_ticket_expired:
  "sum_list (map ExpiredTickets (fst (logger_step c el))) + expiredTickets (snd (logger_step c el)) =
     expiredTickets el + (if is_ticket_expired c then 1 else 0)"
  by (cases c)
    (simp_all add: LogLockRequested_def LogLockGranted_def LogLockReleased_def LogLockExpired_def
      LogLockExtended_def LogTicketExpired_def IncrementErrors_def GetMinuteMetrics_def Let_def)

lemma logger_step_error:
  "sum_list (map FailedRequests (fst (logger_step c el))) + failedRequests (snd (logger_step c el)) =
     failedRequests el + (if is_error c then 1 else 0)"
  by (cases c)
    (simp_all add: LogLockRequested_def LogLockGranted_def LogLockReleased_def LogLockExpired_def
      LogLockExtended_def LogTicketExpired_def IncrementErrors_def GetMinuteMetrics_def Let_def)

lemma logger_run_sum:
  fixes F :: "SystemMetricsLog \<Rightarrow> int64" and G :: "EventLogger \<Rightarrow> int64"
  assumes step: "\<And>c el. sum_list (map F (fst (logger_step c el))) + G (snd (logger_step c el)) =
                   G el + (if P c then 1 else 0)"
  shows "sum_list (map F (fst (logger_run cs el))) + G (snd (logger_run cs el)) =
           G el + of_nat (length (filter P cs))"
proof (induction cs arbitrary: el)
  case Nil
  then show ?case by simp
next
  case (Cons c cs)
  have "sum_list (map F (fst (logger_run (c # cs) el))) + G (snd (logger_run (c # cs) el)) =
        sum_list (map F (fst (logger_step c el))) +
          (sum_list (map F (fst (logger_run cs (snd (logger_step c el))))) +
           G (snd (logger_run cs (snd (logger_step c el)))))"
    by (simp add: split_beta add.assoc)
  also have "\<dots> = sum_list (map F (fst (logger_step c el))) +
      (G (snd (logger_step c el)) + of_nat (length (filter P cs)))"
    by (simp only: Cons.IH)
  also have "\<dots> = G el + (if P c then 1 else 0) + of_nat (length (filter P cs))"
    by (simp only: step [symmetric] add.assoc)
  finally show ?case by simp
qed

text \<open>
  Claim C9, as stated: GetMinuteMetrics returns the value of every per-minute counter in
  the snapshot, so that no recorded event is lost. It fails: a recorded lock-expired event
  leaves no trace, the call returning the same snapshot and the same state as without the
  event; a recorded lock-released event is reset to zero without being returned; and two
  executions with different sums of wait times return the same snapshot.
\<close>

theorem minute_metrics_lose_events:
  "locksExpired (LogLockExpired ''u1'' ''T1'' ''th1'' ''max_duration_expired'' 0 NewEventLogger) = 1 \<and>
   GetMinuteMetrics 60 (LogLockExpired ''u1'' ''T1'' ''th1'' ''max_duration_expired'' 0 NewEventLogger) =
     GetMinuteMetrics 60 NewEventLogger \<and>
   locksReleased (LogLockReleased ''u1'' ''T1'' ''th1'' 0 NewEventLogger) = 1 \<and>
   fst (GetMinuteMetrics 60 (LogLockReleased ''u1'' ''T1'' ''th1'' 0 NewEventLogger)) =
     fst (GetMinuteMetrics 60 NewEventLogger) \<and>
   locksReleased (snd (GetMinuteMetrics 60 (LogLockReleased ''u1'' ''T1'' ''th1'' 0 NewEventLogger))) = 0 \<and>
   totalWaitTime (LogLockGranted ''u2'' ''T2'' ''th1'' 2 (LogLockGranted ''u1'' ''T1'' ''th1'' 1 NewEventLogger)) = 3 \<and>
   totalWaitTime (LogLockGranted ''u2'' ''T2'' ''th1'' 1 (LogLockGranted ''u1'' ''T1'' ''th1'' 1 NewEventLogger)) = 2 \<and>
   fst (GetMinuteMetrics 60
          (LogLockGranted ''u2'' ''T2'' ''th1'' 2 (LogLockGranted ''u1'' ''T1'' ''th1'' 1 NewEventLogger))) =
     fst (GetMinuteMetrics 60
          (LogLockGranted ''u2'' ''T2'' ''th1'' 1 (LogLockGranted ''u1'' ''T1'' ''th1'' 1 NewEventLogger)))"
  by (simp add: LogLockExpired_def LogLockReleased_def LogLockGranted_def GetMinuteMetrics_def
      NewEventLogger_def updateMaxHoldTime_def updateMaxWaitTime_def Let_def int64_div_def)

text \<open>
  Claim C9, amended. Called one after the other, GetMinuteMetrics sets every per-minute
  counter (locks granted, released and expired, expired tickets, failed requests, the
  wait and hold sums and counts) to zero. The snapshot returns the values of locks
  granted, expired tickets and failed requests, so that over any execution the values
  returned by the successive calls and the value still in the counter add up to the
  number of events recorded (in 64-bit arithmetic): none is counted twice and none is
  lost. The wait and hold sums and counts are returned only as the average sum / count,
  truncated, and 0 when the count is not positive. The counters of released and expired
  locks are set to zero and not returned.
\<close>

theorem minute_metrics_partition:
  "sum_list (map LocksGrantedLastMin (fst (logger_run cs NewEventLogger))) +
     locksGranted (snd (logger_run cs NewEventLogger)) = of_nat (length (filter is_granted cs)) \<and>
   sum_list (map ExpiredTickets (fst (logger_run cs NewEventLogger))) +
     expiredTickets (snd (logger_run cs NewEventLogger)) = of_nat (length (filter is_ticket_expired cs)) \<and>
   sum_list (map FailedRequests (fst (logger_run cs NewEventLogger))) +
     failedRequests (snd (logger_run cs NewEventLogger)) = of_nat (length (filter is_error cs)) \<and>
   LocksGrantedLastMin (fst (GetMinuteMetrics now el)) = locksGranted el \<and>
   ExpiredTickets (fst (GetMinuteMetrics now el)) = expiredTickets el \<and>
   FailedRequests (fst (GetMinuteMetrics now el)) = failedRequests el \<and>
   AvgWaitTimeMs (fst (GetMinuteMetrics now el)) =
     (if 0 < sint (waitCount el) then int64_div (totalWaitTime el) (waitCount el) else 0) \<and>
   AvgHoldTimeMs (fst (GetMinuteMetrics now el)) =
     (if 0 < sint (holdCount el) then int64_div (totalHoldTime el) (holdCount el) else 0) \<and>
   locksGranted (snd (GetMinuteMetrics now el)) = 0 \<and>
   locksReleased (snd (GetMinuteMetrics now el)) = 0 \<and>
   locksExpired (snd (GetMinuteMetrics now el)) = 0 \<and>
   expiredTickets (snd (GetMinuteMetrics now el)) = 0 \<and>
   failedRequests (snd (GetMinuteMetrics now el)) = 0 \<and>
   totalWaitTime (snd (GetMinuteMetrics now el)) = 0 \<and>
   totalHoldTime (snd (GetMinuteMetrics now el)) = 0 \<and>
   waitCount (snd (GetMinuteMetrics now el)) = 0 \<and>
   holdCount (snd (GetMinuteMetrics now el)) = 0"
proof -
  have 1: "sum_list (map LocksGrantedLastMin (fst (logger_run cs NewEventLogger))) +
     locksGranted (snd (logger_run cs NewEventLogger)) = of_nat (length (filter is_granted cs))"
    using logger_run_sum [of LocksGrantedLastMin locksGranted is_granted cs NewEventLogger, OF logger_step_granted]
    by (simp add: NewEventLogger_def)
  have 2: "sum_list (map ExpiredTickets (fst (logger_run cs NewEventLogger))) +
     expiredTickets (snd (logger_run cs NewEventLogger)) = of_nat (length (filter is_ticket_expired cs))"
    using logger_run_sum [of ExpiredTickets expiredTickets is_ticket_expired cs NewEventLogger, OF logger_step_ticket_expired]
    by (simp add: NewEventLogger_def)
  have 3: "sum_list (map FailedRequests (fst (logger_run cs NewEventLogger))) +
     failedRequests (snd (logger_run cs NewEventLogger)) = of_nat (length (filter is_error cs))"
    using logger_run_sum [of FailedRequests failedRequests is_error cs NewEventLogger, OF logger_step_error]
    by (simp add: NewEventLogger_def)
  show ?thesis
    by (intro conjI 1 2 3) (simp_all add: GetMinuteMetrics_def Let_def)
qed

theorem minute_metrics_partition_witness:
  "map LocksGrantedLastMin (fst (logger_run sample_calls NewEventLogger)) = [1, 1] \<and>
   locksGranted (snd (logger_run sample_calls NewEventLogger)) = 0 \<and>
   length (filter is_granted sample_calls) = 2 \<and>
   sum_list (map LocksGrantedLastMin (fst (logger_run sample_calls NewEventLogger))) +
     locksGranted (snd (logger_run sample_calls NewEventLogger)) =
     of_nat (length (filter is_granted sample_calls))"
proof -
  have "sum_list (map LocksGrantedLastMin (fst (logger_run sample_calls NewEventLogger))) +
     locksGranted (snd (logger_run sample_calls NewEventLogger)) =
     of_nat (length (filter is_granted sample_calls))"
    using minute_metrics_partition [of sample_calls] by (rule conjunct1)
  moreover have "map LocksGrantedLastMin (fst (logger_run sample_calls NewEventLogger)) = [1, 1]"
    "locksGranted (snd (logger_run sample_calls NewEventLogger)) = 0"
    "length (filter is_granted sample_calls) = 2"
    by (simp_all add: sample_calls_def NewEventLogger_def LogLockGranted_def LogLockReleased_def
        LogLockExpired_def LogTicketExpired_def GetMinuteMetrics_def updateMaxWaitTime_def
        updateMaxHoldTime_def Let_def)
  ultimately show ?thesis by (intro conjI)
qed

end
